(* ===== verification/Ovm_Prelude.thy ===== *)
theory Ovm_Prelude
  imports Main "HOL-Library.Sublist"
begin

text \<open>
  The prelude of the development: the values the Go code calls errors, the theorem collections
  the component theories extend, and the generic lemmas on lists, suffixes and option values
  that several components share.

  A Go \<open>error\<close> result is a value of type \<open>goerr option\<close>, \<open>None\<close> being \<open>nil\<close>; a Go result
  \<open>(T, error)\<close> is a value of type \<open>goerr + T\<close>, \<open>Inl\<close> being the error.
\<close>

named_theorems host_simps
named_theorems go_string_simps

section \<open>Errors\<close>

text \<open>The system error numbers the operations of the program can meet, and \<open>os.ErrClosed\<close>.\<close>

datatype errno =
    ENOENT | EACCES | EPERM | ESRCH | EIO | ENOTDIR | EISDIR | EAGAIN | EADDRINUSE | ENOSPC
  | EEXIST | EOPNOTSUPP | ErrClosed

fun errno_text :: "errno \<Rightarrow> string" where
  "errno_text ENOENT = ''no such file or directory''"
| "errno_text EACCES = ''permission denied''"
| "errno_text EPERM = ''operation not permitted''"
| "errno_text ESRCH = ''no such process''"
| "errno_text EIO = ''input/output error''"
| "errno_text ENOTDIR = ''not a directory''"
| "errno_text EISDIR = ''is a directory''"
| "errno_text EAGAIN = ''resource temporarily unavailable''"
| "errno_text EADDRINUSE = ''address already in use''"
| "errno_text ENOSPC = ''no space left on device''"
| "errno_text EEXIST = ''file exists''"
| "errno_text EOPNOTSUPP = ''operation not supported on socket''"
| "errno_text ErrClosed = ''file already closed''"

text \<open>
  \<open>PathError op path e\<close> is \<open>*fs.PathError\<close>, \<open>Errno e\<close> is \<open>syscall.Errno\<close>, \<open>NumSyntax\<close> and
  \<open>NumRange\<close> are the two \<open>*strconv.NumError\<close> values of \<open>Atoi\<close>, \<open>Msg m\<close> is an error made from a
  text alone, and \<open>Wrap m e\<close> is \<open>fmt.Errorf\<close> of the text \<open>m\<close> followed by \<open>%w\<close> or \<open>%v\<close> of the
  error \<open>e\<close>.
\<close>

datatype goerr =
    PathError string string errno
  | Errno errno
  | NumSyntax string
  | NumRange string
  | Msg string
  | Wrap string goerr

type_synonym 'a res = "goerr + 'a"

text \<open>\<open>os.IsNotExist\<close> looks at the error itself and does not unwrap \<open>fmt.Errorf\<close> values.\<close>

fun os_IsNotExist :: "goerr \<Rightarrow> bool" where
  "os_IsNotExist (PathError _ _ e) = (e = ENOENT)"
| "os_IsNotExist (Errno e) = (e = ENOENT)"
| "os_IsNotExist _ = False"

definition is_ok :: "goerr + 'a \<Rightarrow> bool" where
  "is_ok r = (case r of Inl _ \<Rightarrow> False | Inr _ \<Rightarrow> True)"

lemma is_ok_simps [simp]: "is_ok (Inr x)" "\<not> is_ok (Inl e)"
  by (simp_all add: is_ok_def)

lemma is_okE: "is_ok r \<Longrightarrow> \<exists>x. r = Inr x"
  by (cases r) simp_all

text \<open>A call that returns, or ends the process with a panic.\<close>

datatype 'a outcome = Panic | Ret 'a

section \<open>Lists\<close>

lemma dropWhile_idem_hd: "xs = [] \<or> \<not> P (hd xs) \<Longrightarrow> dropWhile P xs = xs"
  by (cases xs) auto

lemma hd_dropWhile_not: "dropWhile P xs \<noteq> [] \<Longrightarrow> \<not> P (hd (dropWhile P xs))"
  by (rule hd_dropWhile)

lemma dropWhile_dropWhile [simp]: "dropWhile P (dropWhile P xs) = dropWhile P xs"
  by (induction xs) auto

lemma set_dropWhile_subset: "set (dropWhile P xs) \<subseteq> set xs"
  by (auto dest: set_dropWhileD)

lemma last_rev_dropWhile:
  "dropWhile P (rev xs) \<noteq> [] \<Longrightarrow> \<not> P (last (rev (dropWhile P (rev xs))))"
  by (metis hd_dropWhile last_rev)

text \<open>
  Two suffixes of one list: the shorter is a suffix of the longer. This decides which of the
  program's derived paths can coincide.
\<close>

lemma suffixes_comparable: "suffix u s \<Longrightarrow> suffix v s \<Longrightarrow> suffix u v \<or> suffix v u"
  by (meson suffix_same_cases)

lemma suffix_append_right: "suffix u v \<Longrightarrow> suffix u (w @ v)"
  by (auto simp: suffix_def)

lemma map_upd_eq_other: "k \<noteq> k' \<Longrightarrow> (m(k := v)) k' = m k'"
  by simp

lemma foldl_invariant:
  assumes "I s" and "\<And>s x. I s \<Longrightarrow> x \<in> set xs \<Longrightarrow> I (f s x)"
  shows "I (foldl f s xs)"
  using assms by (induction xs arbitrary: s) auto

section \<open>Step relations\<close>

text \<open>
  The states that the steps of a system lead to. The concurrent parts of the program are systems of this kind: the processes at the lock, the
  goroutines of a function, and those of the whole program.
\<close>

inductive steps :: "('s \<Rightarrow> 's \<Rightarrow> bool) \<Rightarrow> 's \<Rightarrow> 's \<Rightarrow> bool" for step s0 where
  steps_start: "steps step s0 s0"
| steps_next: "steps step s0 s \<Longrightarrow> step s t \<Longrightarrow> steps step s0 t"

lemma steps_trans: "steps step b c \<Longrightarrow> steps step a b \<Longrightarrow> steps step a c"
  by (induction rule: steps.induct) (auto intro: steps_next)

text \<open>The contract of an invariant: every step keeps it. Then it holds in all states that are reached from one where it holds.\<close>

locale safe_steps =
  fixes step :: "'s \<Rightarrow> 's \<Rightarrow> bool"
    and inv :: "'s \<Rightarrow> bool"
  assumes keeps: "step s t \<Longrightarrow> inv s \<Longrightarrow> inv t"
begin

lemma reached: "steps step s0 s \<Longrightarrow> inv s0 \<Longrightarrow> inv s"
  by (induction rule: steps.induct) (auto intro: keeps)

lemma never: "steps step s0 s \<Longrightarrow> inv s0 \<Longrightarrow> (\<And>t. inv t \<Longrightarrow> \<not> bad t) \<Longrightarrow> \<not> bad s"
  using reached by blast

end

text \<open>The contract of a refinement: what one step of the detailed system does, some steps of the specification do. Then the same holds of its runs.\<close>

locale simulation =
  fixes cstep :: "'c \<Rightarrow> 'c \<Rightarrow> bool"
    and astep :: "'a \<Rightarrow> 'a \<Rightarrow> bool"
    and rel :: "'c \<Rightarrow> 'a \<Rightarrow> bool"
  assumes matched: "cstep c d \<Longrightarrow> rel c a \<Longrightarrow> \<exists>b. steps astep a b \<and> rel d b"
begin

lemma simulated: "steps cstep c0 c \<Longrightarrow> rel c0 a0 \<Longrightarrow> \<exists>a. steps astep a0 a \<and> rel c a"
proof (induction rule: steps.induct)
  case (steps_next c d)
  then obtain a where a: "steps astep a0 a" "rel c a" by blast
  with matched [OF steps_next(2)] obtain b where "steps astep a b" "rel d b" by blast
  with a show ?case using steps_trans [of astep a b a0] by blast
qed (blast intro: steps_start)

end

end
