(* ===== verification/Go_Strings.thy ===== *)
theory Go_Strings
  imports Ovm_Prelude
begin

text \<open>
  The functions of Go's packages \<open>strings\<close>, \<open>strconv\<close>, \<open>path\<close>, \<open>path/filepath\<close> and \<open>net/url\<close>
  that the program calls, on byte strings. Where Go consults Unicode tables (\<open>ToLower\<close>,
  \<open>TrimSpace\<close>) the definitions give the ASCII behaviour. Every separator the program passes to
  \<open>strings.Split\<close> and every pattern it passes to \<open>strings.ReplaceAll\<close> is one character, so the
  definitions take a character.
\<close>

section \<open>Package strings\<close>

fun strings_Split :: "string \<Rightarrow> char \<Rightarrow> string list" where
  "strings_Split [] sep = [[]]"
| "strings_Split (c # s) sep =
     (if c = sep then [] # strings_Split s sep
      else (case strings_Split s sep of
              [] \<Rightarrow> [[c]]
            | part # parts \<Rightarrow> (c # part) # parts))"

fun strings_Join :: "string list \<Rightarrow> string \<Rightarrow> string" where
  "strings_Join [] sep = []"
| "strings_Join [x] sep = x"
| "strings_Join (x # y # xs) sep = x @ sep @ strings_Join (y # xs) sep"

definition is_space :: "char \<Rightarrow> bool" where
  "is_space c = (c \<in> {CHR '' '', CHR 0x09, CHR 0x0A, CHR 0x0B, CHR 0x0C, CHR 0x0D})"

definition trim_right_by :: "(char \<Rightarrow> bool) \<Rightarrow> string \<Rightarrow> string" where
  "trim_right_by P s = rev (dropWhile P (rev s))"

definition strings_TrimSpace :: "string \<Rightarrow> string" where
  "strings_TrimSpace s = trim_right_by is_space (dropWhile is_space s)"

text \<open>\<open>strings.TrimRight(s, cutset)\<close> for the one-character cutset of the program.\<close>

definition strings_TrimRight :: "string \<Rightarrow> char \<Rightarrow> string" where
  "strings_TrimRight s c = trim_right_by (\<lambda>x. x = c) s"

definition strings_HasPrefix :: "string \<Rightarrow> string \<Rightarrow> bool" where
  "strings_HasPrefix s p = (take (length p) s = p)"

definition strings_TrimPrefix :: "string \<Rightarrow> string \<Rightarrow> string" where
  "strings_TrimPrefix s p = (if strings_HasPrefix s p then drop (length p) s else s)"

definition strings_ReplaceAll :: "string \<Rightarrow> char \<Rightarrow> string \<Rightarrow> string" where
  "strings_ReplaceAll s old new = concat (map (\<lambda>c. if c = old then new else [c]) s)"

fun strings_Contains :: "string \<Rightarrow> string \<Rightarrow> bool" where
  "strings_Contains [] sub = (sub = [])"
| "strings_Contains (c # s) sub = (strings_HasPrefix (c # s) sub \<or> strings_Contains s sub)"

definition char_lower :: "char \<Rightarrow> char" where
  "char_lower c = (if 65 \<le> (of_char c :: nat) \<and> (of_char c :: nat) \<le> 90
                   then char_of ((of_char c :: nat) + 32) else c)"

definition strings_ToLower :: "string \<Rightarrow> string" where
  "strings_ToLower s = map char_lower s"

section \<open>Package strconv\<close>

definition digit_char :: "nat \<Rightarrow> char" where
  "digit_char d = char_of (48 + d)"

fun nat_digits :: "nat \<Rightarrow> string" where
  "nat_digits n = (if n < 10 then [digit_char n] else nat_digits (n div 10) @ [digit_char (n mod 10)])"

declare nat_digits.simps [simp del]

definition strconv_Itoa :: "int \<Rightarrow> string" where
  "strconv_Itoa i = (if i < 0 then CHR ''-'' # nat_digits (nat (- i)) else nat_digits (nat i))"

definition is_digit :: "char \<Rightarrow> bool" where
  "is_digit c = (48 \<le> (of_char c :: nat) \<and> (of_char c :: nat) \<le> 57)"

definition digit_val :: "char \<Rightarrow> nat" where
  "digit_val c = (of_char c :: nat) - 48"

definition digits_val :: "string \<Rightarrow> nat" where
  "digits_val s = foldl (\<lambda>n c. 10 * n + digit_val c) 0 s"

text \<open>
  \<open>strconv.Atoi\<close>: an optional sign, then at least one decimal digit and nothing else; a value
  outside the 64-bit range is a range error.
\<close>

definition strconv_Atoi :: "string \<Rightarrow> int res" where
  "strconv_Atoi s =
     (let neg = (s \<noteq> [] \<and> hd s = CHR ''-'');
          ds = (if s \<noteq> [] \<and> (hd s = CHR ''-'' \<or> hd s = CHR ''+'') then tl s else s)
      in if ds = [] \<or> \<not> list_all is_digit ds then Inl (NumSyntax s)
         else let v = (if neg then - int (digits_val ds) else int (digits_val ds))
              in if v < - (2 ^ 63) \<or> 2 ^ 63 - 1 < v then Inl (NumRange s) else Inr v)"

text \<open>\<open>strconv.Quote\<close> on ASCII strings, which \<open>*NumError\<close> texts contain.\<close>

definition hex_digit :: "nat \<Rightarrow> char" where
  "hex_digit d = (if d < 10 then char_of (48 + d) else char_of (87 + d))"

definition quote_char :: "char \<Rightarrow> string" where
  "quote_char c =
     (let n = (of_char c :: nat); bs = CHR 0x5C
      in if c = CHR 0x22 \<or> c = bs then [bs, c]
         else if 32 \<le> n \<and> n < 127 then [c]
         else if n = 7 then [bs, CHR ''a''] else if n = 8 then [bs, CHR ''b'']
         else if n = 12 then [bs, CHR ''f''] else if n = 10 then [bs, CHR ''n'']
         else if n = 13 then [bs, CHR ''r''] else if n = 9 then [bs, CHR ''t'']
         else if n = 11 then [bs, CHR ''v'']
         else [bs, CHR ''x'', hex_digit (n div 16), hex_digit (n mod 16)])"

definition strconv_Quote :: "string \<Rightarrow> string" where
  "strconv_Quote s = [CHR 0x22] @ concat (map quote_char s) @ [CHR 0x22]"

text \<open>The text of an error, what \<open>Error()\<close> and the verb \<open>%v\<close> give.\<close>

fun err_text :: "goerr \<Rightarrow> string" where
  "err_text (PathError op p e) = op @ '' '' @ p @ '': '' @ errno_text e"
| "err_text (Errno e) = errno_text e"
| "err_text (NumSyntax s) = ''strconv.Atoi: parsing '' @ strconv_Quote s @ '': invalid syntax''"
| "err_text (NumRange s) = ''strconv.Atoi: parsing '' @ strconv_Quote s @ '': value out of range''"
| "err_text (Msg m) = m"
| "err_text (Wrap m e) = m @ err_text e"

section \<open>Packages path and filepath\<close>

text \<open>
  \<open>path.Clean\<close>: the components between slashes are read from left to right onto a stack (top
  first): empty ones and \<open>.\<close> are dropped, \<open>..\<close> removes the component before it, at the root it is
  dropped, and in a relative path with nothing left to remove it is kept.
\<close>

fun clean_step :: "bool \<Rightarrow> string list \<Rightarrow> string \<Rightarrow> string list" where
  "clean_step rooted st c =
     (if c = [] \<or> c = ''.'' then st
      else if c = ''..'' then
        (case st of
           [] \<Rightarrow> (if rooted then [] else [c])
         | t # st' \<Rightarrow> (if t = ''..'' then c # st else st'))
      else c # st)"

definition is_rooted :: "string \<Rightarrow> bool" where
  "is_rooted p = (p \<noteq> [] \<and> hd p = CHR ''/'')"

definition clean_components :: "string \<Rightarrow> string list" where
  "clean_components p = rev (foldl (clean_step (is_rooted p)) [] (strings_Split p (CHR ''/'')))"

definition path_Clean :: "string \<Rightarrow> string" where
  "path_Clean p =
     (let body = (if is_rooted p then ''/'' else []) @ strings_Join (clean_components p) ''/''
      in if body = [] then ''.'' else body)"

definition path_Join :: "string list \<Rightarrow> string" where
  "path_Join elems =
     (let parts = dropWhile (\<lambda>e. e = []) elems
      in if parts = [] then [] else path_Clean (strings_Join parts ''/''))"

definition filepath_Base :: "string \<Rightarrow> string" where
  "filepath_Base p =
     (if p = [] then ''.''
      else let s = strings_TrimRight p (CHR ''/'')
           in if s = [] then ''/'' else last (strings_Split s (CHR ''/'')))"

text \<open>\<open>filepath.Abs\<close>, given the working directory \<open>os.Getwd\<close> returns or its error.\<close>

definition filepath_Abs :: "string res \<Rightarrow> string \<Rightarrow> string res" where
  "filepath_Abs wd p =
     (if is_rooted p then Inr (path_Clean p)
      else case wd of Inl e \<Rightarrow> Inl e | Inr d \<Rightarrow> Inr (path_Join [d, p]))"

section \<open>Package net/url\<close>

definition upper_hex :: "nat \<Rightarrow> char" where
  "upper_hex d = (if d < 10 then char_of (48 + d) else char_of (55 + d))"

definition is_unreserved :: "char \<Rightarrow> bool" where
  "is_unreserved c =
     (let n = (of_char c :: nat)
      in (97 \<le> n \<and> n \<le> 122) \<or> (65 \<le> n \<and> n \<le> 90) \<or> (48 \<le> n \<and> n \<le> 57) \<or>
         c \<in> {CHR ''-'', CHR ''_'', CHR ''.'', CHR ''~''})"

definition escape_char :: "char \<Rightarrow> string" where
  "escape_char c =
     (if c = CHR '' '' then ''+''
      else if is_unreserved c then [c]
      else let n = (of_char c :: nat) in [CHR ''%'', upper_hex (n div 16), upper_hex (n mod 16)])"

definition url_QueryEscape :: "string \<Rightarrow> string" where
  "url_QueryEscape s = concat (map escape_char s)"


section \<open>Splitting and joining\<close>

lemma strings_Split_not_Nil [simp]: "strings_Split s sep \<noteq> []"
  by (induction s) (auto split: list.splits)

lemma strings_Split_Cons_other:
  "c \<noteq> sep \<Longrightarrow> strings_Split (c # s) sep =
     (c # hd (strings_Split s sep)) # tl (strings_Split s sep)"
  by (cases "strings_Split s sep") simp_all

lemma strings_Join_Cons: "xs \<noteq> [] \<Longrightarrow> strings_Join (x # xs) sep = x @ sep @ strings_Join xs sep"
  by (cases xs) simp_all

lemma strings_Join_Cons_hd: "strings_Join ((c # x) # xs) sep = c # strings_Join (x # xs) sep"
  by (cases xs) simp_all

lemma strings_Join_Split: "strings_Join (strings_Split s sep) [sep] = s"
proof (induction s)
  case (Cons c s)
  show ?case
  proof (cases "c = sep")
    case True
    with Cons show ?thesis by (simp add: strings_Join_Cons)
  next
    case False
    with Cons show ?thesis
      by (cases "strings_Split s sep") (simp_all add: strings_Join_Cons_hd)
  qed
qed simp

lemma strings_Split_no_sep: "sep \<notin> set s \<Longrightarrow> strings_Split s sep = [s]"
  by (induction s) auto

lemma strings_Split_append_sep:
  "sep \<notin> set x \<Longrightarrow> strings_Split (x @ sep # s) sep = x # strings_Split s sep"
  by (induction x) auto

lemma strings_Split_Join:
  assumes "xs \<noteq> []" and "\<forall>x \<in> set xs. sep \<notin> set x"
  shows "strings_Split (strings_Join xs [sep]) sep = xs"
  using assms
proof (induction xs rule: induct_list012)
  case (3 x y zs)
  then show ?case by (simp add: strings_Split_append_sep)
qed (simp_all add: strings_Split_no_sep)

lemma strings_Split_parts_no_sep: "x \<in> set (strings_Split s sep) \<Longrightarrow> sep \<notin> set x"
proof (induction s arbitrary: x)
  case (Cons c s)
  then show ?case
    by (cases "strings_Split s sep") (auto split: if_splits)
qed simp

lemma strings_Split_append_no_sep:
  "sep \<notin> set u \<Longrightarrow>
     strings_Split (s @ u) sep = butlast (strings_Split s sep) @ [last (strings_Split s sep) @ u]"
proof (induction s)
  case (Cons c s)
  then show ?case
    by (cases "strings_Split s sep") (auto simp: neq_Nil_conv split: list.splits)
qed (simp add: strings_Split_no_sep)

lemma length_strings_Split: "length (strings_Split s sep) = Suc (count_list s sep)"
  by (induction s) (auto split: list.splits)

section \<open>Trimming\<close>

lemma trim_right_by_eq_self: "s = [] \<or> \<not> P (last s) \<Longrightarrow> trim_right_by P s = s"
  by (cases s rule: rev_cases) (auto simp: trim_right_by_def)

lemma trim_right_by_last: "trim_right_by P s \<noteq> [] \<Longrightarrow> \<not> P (last (trim_right_by P s))"
  unfolding trim_right_by_def using last_rev_dropWhile [of P s] by simp

lemma trim_right_by_prefix: "\<exists>u. s = trim_right_by P s @ u \<and> (\<forall>c \<in> set u. P c)"
proof -
  have "rev s = takeWhile P (rev s) @ dropWhile P (rev s)" by simp
  then have "s = rev (dropWhile P (rev s)) @ rev (takeWhile P (rev s))"
    by (metis rev_append rev_rev_ident)
  then show ?thesis
    unfolding trim_right_by_def by (metis set_rev set_takeWhileD)
qed

lemma trim_right_by_idem [simp]: "trim_right_by P (trim_right_by P s) = trim_right_by P s"
  by (simp add: trim_right_by_def)

lemma hd_trim_right_by: "trim_right_by P s \<noteq> [] \<Longrightarrow> hd (trim_right_by P s) = hd s"
  by (metis hd_append2 trim_right_by_prefix)

lemma strings_TrimSpace_hd:
  "strings_TrimSpace s \<noteq> [] \<Longrightarrow> \<not> is_space (hd (strings_TrimSpace s))"
  unfolding strings_TrimSpace_def
  by (metis hd_dropWhile hd_trim_right_by append_Nil trim_right_by_prefix append_is_Nil_conv)

lemma strings_TrimSpace_last:
  "strings_TrimSpace s \<noteq> [] \<Longrightarrow> \<not> is_space (last (strings_TrimSpace s))"
  unfolding strings_TrimSpace_def by (rule trim_right_by_last)

definition trimmed :: "string \<Rightarrow> bool" where
  "trimmed s = (s = [] \<or> (\<not> is_space (hd s) \<and> \<not> is_space (last s)))"

lemma strings_TrimSpace_trimmed [simp]: "trimmed (strings_TrimSpace s)"
  using strings_TrimSpace_hd strings_TrimSpace_last by (auto simp: trimmed_def)

lemma trimmed_TrimSpace: "trimmed s \<Longrightarrow> strings_TrimSpace s = s"
  by (auto simp: trimmed_def strings_TrimSpace_def trim_right_by_eq_self dropWhile_idem_hd)

lemma strings_TrimSpace_iff: "strings_TrimSpace s = s \<longleftrightarrow> trimmed s"
  using trimmed_TrimSpace strings_TrimSpace_trimmed by metis

lemma set_trim_right_by: "set (trim_right_by P s) \<subseteq> set s"
  by (metis Un_iff set_append subsetI trim_right_by_prefix)

lemma set_strings_TrimSpace: "set (strings_TrimSpace s) \<subseteq> set s"
  unfolding strings_TrimSpace_def
  by (meson order_trans set_trim_right_by set_dropWhile_subset)


section \<open>Numbers\<close>

lemma of_char_digit_char: "d < 10 \<Longrightarrow> (of_char (digit_char d) :: nat) = 48 + d"
  by (simp add: digit_char_def)

lemma is_digit_digit_char [simp]: "d < 10 \<Longrightarrow> is_digit (digit_char d)"
  by (simp add: is_digit_def of_char_digit_char)

lemma digit_val_digit_char [simp]: "d < 10 \<Longrightarrow> digit_val (digit_char d) = d"
  by (simp add: digit_val_def of_char_digit_char)

lemma digits_val_snoc: "digits_val (s @ [c]) = 10 * digits_val s + digit_val c"
  by (simp add: digits_val_def)

lemma nat_digits_all: "list_all is_digit (nat_digits n)"
proof (induction n rule: nat_digits.induct)
  case (1 n)
  then show ?case
    by (subst nat_digits.simps) (auto simp: list_all_iff)
qed

lemma nat_digits_not_Nil [simp]: "nat_digits n \<noteq> []"
  by (subst nat_digits.simps) simp

lemma digits_val_nat_digits [simp]: "digits_val (nat_digits n) = n"
proof (induction n rule: nat_digits.induct)
  case (1 n)
  show ?case
  proof (cases "n < 10")
    case True
    then show ?thesis by (subst nat_digits.simps) (simp add: digits_val_def)
  next
    case False
    with 1 show ?thesis by (subst nat_digits.simps) (simp add: digits_val_snoc)
  qed
qed

lemma not_is_digit_sign: "\<not> is_digit (CHR ''-'')" "\<not> is_digit (CHR ''+'')"
  by (simp_all add: is_digit_def)

lemma hd_nat_digits: "hd (nat_digits n) \<noteq> CHR ''-'' \<and> hd (nat_digits n) \<noteq> CHR ''+''"
proof -
  have "is_digit (hd (nat_digits n))"
    using nat_digits_all [of n] by (cases "nat_digits n") auto
  then show ?thesis using not_is_digit_sign by metis
qed

lemma strconv_Atoi_Itoa:
  "- (2 ^ 63) \<le> i \<Longrightarrow> i \<le> 2 ^ 63 - 1 \<Longrightarrow> strconv_Atoi (strconv_Itoa i) = Inr i"
  using nat_digits_all [of "nat i"] nat_digits_all [of "nat (- i)"] hd_nat_digits [of "nat i"]
  by (auto simp: strconv_Atoi_def strconv_Itoa_def Let_def)

lemma length_nat_digits: "n < 10 ^ k \<Longrightarrow> 0 < k \<Longrightarrow> length (nat_digits n) \<le> k"
proof (induction k arbitrary: n)
  case (Suc k)
  show ?case
  proof (cases "n < 10")
    case True
    then show ?thesis by (subst nat_digits.simps) simp
  next
    case False
    with Suc.prems have "n div 10 < 10 ^ k" and "0 < k"
      by (auto simp: less_mult_imp_div_less mult.commute intro: gr0I)
    with Suc.IH False show ?thesis by (subst nat_digits.simps) simp
  qed
qed simp

lemma set_nat_digits: "c \<in> set (nat_digits n) \<Longrightarrow> is_digit c"
  using nat_digits_all by (auto simp: list_all_iff)

section \<open>Paths\<close>

text \<open>
  Joining a directory with a file name that ends in a plain suffix keeps the suffix: cleaning
  drops \<open>.\<close>, \<open>..\<close> and empty components only, and the last component is none of these.
\<close>

lemma clean_step_plain:
  "c \<noteq> [] \<Longrightarrow> c \<noteq> ''.'' \<Longrightarrow> c \<noteq> ''..'' \<Longrightarrow> clean_step r st c = c # st"
  by simp

lemma strings_Join_snoc:
  "xs \<noteq> [] \<Longrightarrow> strings_Join (xs @ [x]) sep = strings_Join xs sep @ sep @ x"
proof (induction xs rule: induct_list012)
  case (3 a b zs)
  then show ?case by simp
qed simp_all

lemma strings_Join_snoc_append:
  "strings_Join (xs @ [x @ u]) sep = strings_Join (xs @ [x]) sep @ u"
  by (cases "xs = []") (simp_all add: strings_Join_snoc)

definition plain_suffix :: "string \<Rightarrow> bool" where
  "plain_suffix u = (CHR ''/'' \<notin> set u \<and> u \<noteq> [] \<and> \<not> suffix u ''.'' \<and> \<not> suffix u ''..'')"

lemma plain_suffixD:
  assumes "plain_suffix u"
  shows "CHR ''/'' \<notin> set u" and "x @ u \<noteq> []" and "x @ u \<noteq> ''.''" and "x @ u \<noteq> ''..''"
  using assms unfolding plain_suffix_def suffix_def by (metis append_is_Nil_conv)+

lemma clean_components_plain:
  assumes "plain_suffix u"
  shows "clean_components (s @ u) =
    rev (foldl (clean_step (is_rooted s)) [] (butlast (strings_Split s (CHR ''/'')))) @
    [last (strings_Split s (CHR ''/'')) @ u]"
proof -
  have "is_rooted (s @ u) = is_rooted s"
    using plain_suffixD(1) [OF assms] by (cases s; cases u) (auto simp: is_rooted_def)
  then show ?thesis
    using plain_suffixD [OF assms]
    by (simp add: clean_components_def strings_Split_append_no_sep clean_step_plain
        del: clean_step.simps)
qed

lemma path_Clean_plain:
  assumes "plain_suffix u"
  shows "path_Clean (s @ u) =
    (if is_rooted s then ''/'' else []) @
    strings_Join (rev (foldl (clean_step (is_rooted s)) [] (butlast (strings_Split s (CHR ''/'')))) @
      [last (strings_Split s (CHR ''/''))]) ''/'' @ u"
proof -
  have "is_rooted (s @ u) = is_rooted s"
    using plain_suffixD(1) [OF assms] by (cases s; cases u) (auto simp: is_rooted_def)
  then show ?thesis
    using plain_suffixD(2) [OF assms]
    by (simp add: path_Clean_def Let_def clean_components_plain [OF assms] strings_Join_snoc_append)
qed

text \<open>
  A directory and a name decide a text that every joined path starts with: two paths made from the
  same directory and name differ exactly where their suffixes differ.
\<close>

definition path_stem :: "string \<Rightarrow> string \<Rightarrow> string" where
  "path_stem d n =
     (let s = (if d = [] then n else d @ ''/'' @ n)
      in (if is_rooted s then ''/'' else []) @
         strings_Join (rev (foldl (clean_step (is_rooted s)) [] (butlast (strings_Split s (CHR ''/'')))) @
           [last (strings_Split s (CHR ''/''))]) ''/'')"

lemma path_Join_plain:
  assumes "plain_suffix u"
  shows "path_Join [d, n @ u] = path_stem d n @ u"
proof -
  have "n @ u \<noteq> []" using assms by (simp add: plain_suffix_def)
  then show ?thesis
    using path_Clean_plain [OF assms, of n] path_Clean_plain [OF assms, of "d @ ''/'' @ n"]
    by (cases "d = []") (simp_all add: path_Join_def path_stem_def Let_def)
qed

lemma path_Join_plain_inject:
  "plain_suffix u \<Longrightarrow> plain_suffix v \<Longrightarrow> path_Join [d, n @ u] = path_Join [d, n @ v] \<longleftrightarrow> u = v"
  by (simp add: path_Join_plain)

section \<open>Query escaping\<close>

text \<open>The inverse a receiver of the query applies (\<open>url.QueryUnescape\<close>).\<close>

definition hex_val :: "char \<Rightarrow> nat option" where
  "hex_val c =
     (let n = (of_char c :: nat)
      in if 48 \<le> n \<and> n \<le> 57 then Some (n - 48)
         else if 97 \<le> n \<and> n \<le> 102 then Some (n - 87)
         else if 65 \<le> n \<and> n \<le> 70 then Some (n - 55) else None)"

fun url_QueryUnescape :: "string \<Rightarrow> string option" where
  "url_QueryUnescape [] = Some []"
| "url_QueryUnescape (c # s) =
     (if c = CHR ''%'' then
        (case s of
           a # b # r \<Rightarrow>
             (case (hex_val a, hex_val b) of
                (Some x, Some y) \<Rightarrow> map_option (\<lambda>t. char_of (16 * x + y) # t) (url_QueryUnescape r)
              | _ \<Rightarrow> None)
         | _ \<Rightarrow> None)
      else map_option (\<lambda>t. (if c = CHR ''+'' then CHR '' '' else c) # t) (url_QueryUnescape s))"

lemma hex_val_upper_hex: "d < 16 \<Longrightarrow> hex_val (upper_hex d) = Some d"
  by (auto simp: hex_val_def upper_hex_def)

lemma is_unreserved_plain: "is_unreserved c \<Longrightarrow> c \<noteq> CHR ''%'' \<and> c \<noteq> CHR ''+''"
  by (auto simp: is_unreserved_def Let_def)

lemma url_QueryUnescape_escape_char:
  "url_QueryUnescape (escape_char c @ s) = map_option (\<lambda>t. c # t) (url_QueryUnescape s)"
proof -
  have "(of_char c :: nat) div 16 < 16" and "(of_char c :: nat) mod 16 < 16"
    using nat_of_char_less_256 [of c] by (simp_all add: div_less_iff_less_mult)
  then show ?thesis
    using is_unreserved_plain [of c] by (auto simp: escape_char_def Let_def hex_val_upper_hex)
qed

lemma url_QueryUnescape_QueryEscape: "url_QueryUnescape (url_QueryEscape s) = Some s"
  by (induction s) (simp_all add: url_QueryEscape_def url_QueryUnescape_escape_char)

lemma url_QueryEscape_inject: "url_QueryEscape s = url_QueryEscape t \<Longrightarrow> s = t"
  by (metis option.inject url_QueryUnescape_QueryEscape)

text \<open>An escaped value cannot end its query parameter, start another one or break the request line.\<close>

lemma upper_hex_safe: "d < 16 \<Longrightarrow> is_unreserved (upper_hex d)"
  by (auto simp: is_unreserved_def upper_hex_def Let_def)

lemma set_escape_char:
  assumes "c \<in> set (escape_char x)"
  shows "is_unreserved c \<or> c = CHR ''%'' \<or> c = CHR ''+''"
proof -
  have "is_unreserved (upper_hex ((of_char x :: nat) div 16))"
    and "is_unreserved (upper_hex ((of_char x :: nat) mod 16))"
    using nat_of_char_less_256 [of x]
    by (simp_all add: upper_hex_safe div_less_iff_less_mult del: nat_of_char_less_256)
  with assms show ?thesis by (auto simp only: escape_char_def Let_def list.set split: if_splits)
qed

lemma set_url_QueryEscape:
  "c \<in> set (url_QueryEscape s) \<Longrightarrow> is_unreserved c \<or> c = CHR ''%'' \<or> c = CHR ''+''"
  unfolding url_QueryEscape_def using set_escape_char by force

end
