(* ===== verification/Host_FS.thy ===== *)
theory Host_FS
  imports Go_Strings
begin

text \<open>
  The host file system as the program's calls of package \<open>os\<close> see it: names lead to directories,
  special files (sockets, devices) and regular files; a regular file is an inode with contents,
  so an open file keeps its inode when the name is renamed, removed or bound again. A file holds
  the bytes written and a size, the rest up to the size being zero bytes (the sparse disk images).

  Names are compared as the strings the code passes. The kernel may refuse any operation: the field
  \<open>refuse\<close> gives the error for an operation and a path (permissions, a missing parent, a full disk
  and every other reason), and \<open>short\<close> says how many bytes reach a file before a refused write.
  Descriptors are numbered; \<open>flocks\<close> gives the descriptor that holds the advisory lock of an inode.
  Calls of the logger append to \<open>journal\<close> (name of the log, level, message), commands started and
  not waited for are listed in \<open>spawned\<close>.
\<close>

record rfile =
  fdata :: string
  fsize :: nat

datatype entry = Dir | Special | File nat

datatype sysop =
    OpStat | OpOpen | OpRead | OpWrite | OpTruncate | OpSync | OpRename | OpRemove | OpMkdir
  | OpClose | OpFlock

text \<open>An open file description: the path it was opened with, its inode, the offset, and whether it is open.\<close>

record fdesc =
  fd_path :: string
  fd_ino :: nat
  fd_off :: nat
  fd_open :: bool

type_synonym log_entry = "string \<times> string \<times> string"

record hostfs =
  names :: "string \<Rightarrow> entry option"
  files :: "nat \<Rightarrow> rfile"
  next_ino :: nat
  fds :: "nat \<Rightarrow> fdesc"
  next_fd :: nat
  flocks :: "nat \<Rightarrow> nat option"
  refuse :: "sysop \<Rightarrow> string \<Rightarrow> errno option"
  short :: "string \<Rightarrow> nat"
  journal :: "log_entry list"
  spawned :: "string list list"

definition empty_file :: rfile where
  "empty_file = \<lparr>fdata = [], fsize = 0\<rparr>"

definition file_of :: "string \<Rightarrow> rfile" where
  "file_of d = \<lparr>fdata = d, fsize = length d\<rparr>"

definition file_bytes :: "rfile \<Rightarrow> string" where
  "file_bytes f = fdata f @ replicate (fsize f - length (fdata f)) (CHR 0x00)"

text \<open>What a path leads to: \<open>None\<close> if it is not a regular file.\<close>

definition content :: "'a hostfs_scheme \<Rightarrow> string \<Rightarrow> rfile option" where
  "content h p = (case names h p of Some (File i) \<Rightarrow> Some (files h i) | _ \<Rightarrow> None)"

section \<open>Operations of package os\<close>

definition os_Stat :: "string \<Rightarrow> 'a hostfs_scheme \<Rightarrow> entry res" where
  "os_Stat p h =
     (case refuse h OpStat p of
        Some e \<Rightarrow> Inl (PathError ''stat'' p e)
      | None \<Rightarrow> (case names h p of None \<Rightarrow> Inl (PathError ''stat'' p ENOENT) | Some n \<Rightarrow> Inr n))"

definition os_ReadFile :: "string \<Rightarrow> 'a hostfs_scheme \<Rightarrow> string res" where
  "os_ReadFile p h =
     (case refuse h OpOpen p of
        Some e \<Rightarrow> Inl (PathError ''open'' p e)
      | None \<Rightarrow>
          (case names h p of
             None \<Rightarrow> Inl (PathError ''open'' p ENOENT)
           | Some Dir \<Rightarrow> Inl (PathError ''read'' p EISDIR)
           | Some Special \<Rightarrow> Inl (PathError ''open'' p EOPNOTSUPP)
           | Some (File i) \<Rightarrow>
               (case refuse h OpRead p of
                  Some e \<Rightarrow> Inl (PathError ''read'' p e)
                | None \<Rightarrow> Inr (file_bytes (files h i)))))"

text \<open>\<open>os.OpenFile\<close> with \<open>O_CREATE\<close>, and with \<open>O_TRUNC\<close> when \<open>trunc\<close> holds: the inode it opened.\<close>

definition open_create :: "bool \<Rightarrow> string \<Rightarrow> 'a hostfs_scheme \<Rightarrow> nat res \<times> 'a hostfs_scheme" where
  "open_create trunc p h =
     (case refuse h OpOpen p of
        Some e \<Rightarrow> (Inl (PathError ''open'' p e), h)
      | None \<Rightarrow>
          (case names h p of
             Some Dir \<Rightarrow> (Inl (PathError ''open'' p EISDIR), h)
           | Some Special \<Rightarrow> (Inl (PathError ''open'' p EOPNOTSUPP), h)
           | Some (File i) \<Rightarrow>
               (Inr i, if trunc then h\<lparr>files := (files h)(i := empty_file)\<rparr> else h)
           | None \<Rightarrow>
               (Inr (next_ino h),
                h\<lparr>names := (names h)(p := Some (File (next_ino h))),
                  files := (files h)(next_ino h := empty_file),
                  next_ino := Suc (next_ino h)\<rparr>)))"

text \<open>Bytes written into a file at an offset; what was there before is overwritten, not removed.\<close>

definition write_at :: "nat \<Rightarrow> string \<Rightarrow> rfile \<Rightarrow> rfile" where
  "write_at off d f =
     (if d = [] then f
      else \<lparr>fdata = take off (fdata f) @ replicate (off - length (fdata f)) (CHR 0x00) @ d @
                     drop (off + length d) (fdata f),
            fsize = max (fsize f) (off + length d)\<rparr>)"

definition fh_Write ::
  "string \<Rightarrow> nat \<Rightarrow> nat \<Rightarrow> string \<Rightarrow> 'a hostfs_scheme \<Rightarrow> goerr option \<times> 'a hostfs_scheme" where
  "fh_Write p i off d h =
     (case refuse h OpWrite p of
        Some e \<Rightarrow>
          (Some (PathError ''write'' p e),
           h\<lparr>files := (files h)(i := write_at off (take (short h p) d) (files h i))\<rparr>)
      | None \<Rightarrow> (None, h\<lparr>files := (files h)(i := write_at off d (files h i))\<rparr>))"

definition fh_Truncate ::
  "string \<Rightarrow> nat \<Rightarrow> nat \<Rightarrow> 'a hostfs_scheme \<Rightarrow> goerr option \<times> 'a hostfs_scheme" where
  "fh_Truncate p i sz h =
     (case refuse h OpTruncate p of
        Some e \<Rightarrow> (Some (PathError ''truncate'' p e), h)
      | None \<Rightarrow>
          (None, h\<lparr>files := (files h)(i := \<lparr>fdata = take sz (fdata (files h i)), fsize = sz\<rparr>)\<rparr>))"

definition fh_op :: "sysop \<Rightarrow> string \<Rightarrow> string \<Rightarrow> 'a hostfs_scheme \<Rightarrow> goerr option" where
  "fh_op oper verb p h = map_option (PathError verb p) (refuse h oper p)"

definition os_WriteFile ::
  "string \<Rightarrow> string \<Rightarrow> 'a hostfs_scheme \<Rightarrow> goerr option \<times> 'a hostfs_scheme" where
  "os_WriteFile p d h =
     (case open_create True p h of
        (Inl e, h') \<Rightarrow> (Some e, h')
      | (Inr i, h') \<Rightarrow> fh_Write p i 0 d h')"

definition under :: "string \<Rightarrow> string \<Rightarrow> bool" where
  "under d p = (take (Suc (length d)) p = d @ ''/'')"

definition rename_names ::
  "string \<Rightarrow> string \<Rightarrow> (string \<Rightarrow> entry option) \<Rightarrow> string \<Rightarrow> entry option" where
  "rename_names p q m r =
     (if r = q \<or> under q r then m (p @ drop (length q) r)
      else if r = p \<or> under p r then None
      else m r)"

definition os_Rename ::
  "string \<Rightarrow> string \<Rightarrow> 'a hostfs_scheme \<Rightarrow> goerr option \<times> 'a hostfs_scheme" where
  "os_Rename p q h =
     (let err = (\<lambda>e. Some (PathError ''rename'' (p @ '' '' @ q) e))
      in case refuse h OpRename p of
           Some e \<Rightarrow> (err e, h)
         | None \<Rightarrow>
             (case names h p of
                None \<Rightarrow> (err ENOENT, h)
              | Some n \<Rightarrow>
                  if p = q then (None, h)
                  else if names h q = Some Dir then (err EEXIST, h)
                  else if n = Dir \<and> names h q \<noteq> None then (err ENOTDIR, h)
                  else (None, h\<lparr>names := rename_names p q (names h)\<rparr>)))"

definition os_RemoveAll :: "string \<Rightarrow> 'a hostfs_scheme \<Rightarrow> goerr option \<times> 'a hostfs_scheme" where
  "os_RemoveAll p h =
     (if p = [] then (None, h)
      else case refuse h OpRemove p of
        Some e \<Rightarrow> (Some (PathError ''unlinkat'' p e), h)
      | None \<Rightarrow> (None, h\<lparr>names := (\<lambda>q. if q = p \<or> under p q then None else names h q)\<rparr>))"

definition ancestors :: "string \<Rightarrow> string list" where
  "ancestors p = map (\<lambda>i. take i p) (filter (\<lambda>i. 0 < i \<and> p ! i = CHR ''/'') [0..<length p])"

definition is_nondir :: "entry option \<Rightarrow> bool" where
  "is_nondir n = (n \<noteq> None \<and> n \<noteq> Some Dir)"

definition os_MkdirAll :: "string \<Rightarrow> 'a hostfs_scheme \<Rightarrow> goerr option \<times> 'a hostfs_scheme" where
  "os_MkdirAll p h =
     (case refuse h OpMkdir p of
        Some e \<Rightarrow> (Some (PathError ''mkdir'' p e), h)
      | None \<Rightarrow>
          if list_ex (\<lambda>q. is_nondir (names h q)) (ancestors p @ [p])
          then (Some (PathError ''mkdir'' p ENOTDIR), h)
          else (None, h\<lparr>names := (\<lambda>q. if q \<in> set (ancestors p @ [p]) then Some Dir else names h q)\<rparr>))"

text \<open>Descriptors: a new one on an inode, writing at the current offset, closing (which drops the lock).\<close>

definition fd_new :: "string \<Rightarrow> nat \<Rightarrow> 'a hostfs_scheme \<Rightarrow> nat \<times> 'a hostfs_scheme" where
  "fd_new p i h =
     (next_fd h,
      h\<lparr>fds := (fds h)(next_fd h := \<lparr>fd_path = p, fd_ino = i, fd_off = 0, fd_open = True\<rparr>),
        next_fd := Suc (next_fd h)\<rparr>)"

definition fd_Write :: "nat \<Rightarrow> string \<Rightarrow> 'a hostfs_scheme \<Rightarrow> goerr option \<times> 'a hostfs_scheme" where
  "fd_Write n d h =
     (let f = fds h n
      in if \<not> fd_open f then (Some (PathError ''write'' (fd_path f) ErrClosed), h)
         else case fh_Write (fd_path f) (fd_ino f) (fd_off f) d h of
                (Some e, h') \<Rightarrow>
                  (Some e, h'\<lparr>fds := (fds h')(n := f\<lparr>fd_off := fd_off f + length (take (short h (fd_path f)) d)\<rparr>)\<rparr>)
              | (None, h') \<Rightarrow>
                  (None, h'\<lparr>fds := (fds h')(n := f\<lparr>fd_off := fd_off f + length d\<rparr>)\<rparr>))"

definition fd_Sync :: "nat \<Rightarrow> 'a hostfs_scheme \<Rightarrow> goerr option" where
  "fd_Sync n h =
     (let f = fds h n
      in if \<not> fd_open f then Some (PathError ''sync'' (fd_path f) ErrClosed)
         else fh_op OpSync ''sync'' (fd_path f) h)"

definition drop_locks :: "nat \<Rightarrow> (nat \<Rightarrow> nat option) \<Rightarrow> nat \<Rightarrow> nat option" where
  "drop_locks n l i = (if l i = Some n then None else l i)"

definition fd_Close :: "nat \<Rightarrow> 'a hostfs_scheme \<Rightarrow> goerr option \<times> 'a hostfs_scheme" where
  "fd_Close n h =
     (let f = fds h n
      in if \<not> fd_open f then (Some (PathError ''close'' (fd_path f) ErrClosed), h)
         else (fh_op OpClose ''close'' (fd_path f) h,
               h\<lparr>fds := (fds h)(n := f\<lparr>fd_open := False\<rparr>), flocks := drop_locks n (flocks h)\<rparr>))"

definition log_to :: "string \<Rightarrow> string \<Rightarrow> string \<Rightarrow> 'a hostfs_scheme \<Rightarrow> 'a hostfs_scheme" where
  "log_to name level msg h = h\<lparr>journal := journal h @ [(name, level, msg)]\<rparr>"

definition spawn_cmd :: "string list \<Rightarrow> 'a hostfs_scheme \<Rightarrow> 'a hostfs_scheme" where
  "spawn_cmd args h = h\<lparr>spawned := spawned h @ [args]\<rparr>"

section \<open>Well-formed states\<close>

text \<open>
  Every named inode has been allocated, no inode has two names, and no file holds more bytes than
  its size.
\<close>

definition fs_wf :: "'a hostfs_scheme \<Rightarrow> bool" where
  "fs_wf h =
     ((\<forall>p i. names h p = Some (File i) \<longrightarrow> i < next_ino h) \<and>
      (\<forall>p q i. names h p = Some (File i) \<longrightarrow> names h q = Some (File i) \<longrightarrow> p = q) \<and>
      (\<forall>i. length (fdata (files h i)) \<le> fsize (files h i)))"


text \<open>
  The relation a state keeps to an earlier one under operations that only bind new names, change
  files and log: it is what a client needs to know of the calls that are not about its paths.
\<close>

lemma content_simps [simp]:
  "content (h\<lparr>journal := j\<rparr>) p = content h p"
  "content (h\<lparr>spawned := s\<rparr>) p = content h p"
  "content (h\<lparr>next_ino := n\<rparr>) p = content h p"
  "content (h\<lparr>fds := d\<rparr>) p = content h p"
  "content (h\<lparr>next_fd := m\<rparr>) p = content h p"
  "content (h\<lparr>flocks := l\<rparr>) p = content h p"
  by (simp_all add: content_def split: option.split entry.split)

lemma log_to_fields [host_simps]:
  "names (log_to n l m h) = names h" "files (log_to n l m h) = files h"
  "next_ino (log_to n l m h) = next_ino h" "refuse (log_to n l m h) = refuse h"
  "short (log_to n l m h) = short h" "spawned (log_to n l m h) = spawned h"
  "journal (log_to n l m h) = journal h @ [(n, l, m)]"
  "hostfs.more (log_to n l m h) = hostfs.more h" "fds (log_to n l m h) = fds h"
  "next_fd (log_to n l m h) = next_fd h" "flocks (log_to n l m h) = flocks h"
  by (simp_all add: log_to_def)

lemma content_log_to [host_simps]: "content (log_to n l m h) p = content h p"
  by (simp add: log_to_def)

lemma os_calls_log_to [host_simps]:
  "os_Stat p (log_to n l m h) = os_Stat p h"
  "os_ReadFile p (log_to n l m h) = os_ReadFile p h"
  by (simp_all add: os_Stat_def os_ReadFile_def log_to_def split: option.split entry.split)

lemma spawn_cmd_fields [host_simps]:
  "names (spawn_cmd c h) = names h" "files (spawn_cmd c h) = files h"
  "next_ino (spawn_cmd c h) = next_ino h" "refuse (spawn_cmd c h) = refuse h"
  "short (spawn_cmd c h) = short h" "spawned (spawn_cmd c h) = spawned h @ [c]"
  "journal (spawn_cmd c h) = journal h" "hostfs.more (spawn_cmd c h) = hostfs.more h"
  "fds (spawn_cmd c h) = fds h" "next_fd (spawn_cmd c h) = next_fd h"
  "flocks (spawn_cmd c h) = flocks h"
  by (simp_all add: spawn_cmd_def)

lemma content_spawn_cmd [host_simps]: "content (spawn_cmd c h) p = content h p"
  by (simp add: spawn_cmd_def)

lemma fs_wf_log_to [host_simps]: "fs_wf (log_to n l m h) = fs_wf h"
  by (simp add: fs_wf_def log_to_def)

lemma fs_wf_spawn_cmd [host_simps]: "fs_wf (spawn_cmd c h) = fs_wf h"
  by (simp add: fs_wf_def spawn_cmd_def)

lemma fs_wfD:
  assumes "fs_wf h"
  shows "names h p = Some (File i) \<Longrightarrow> i < next_ino h"
    and "names h p = Some (File i) \<Longrightarrow> names h q = Some (File i) \<Longrightarrow> p = q"
    and "length (fdata (files h i)) \<le> fsize (files h i)"
  using assms by (auto simp: fs_wf_def)

lemma file_bytes_file_of [simp]: "file_bytes (file_of d) = d"
  by (simp add: file_bytes_def file_of_def)

lemma file_bytes_empty [simp]: "file_bytes empty_file = []"
  by (simp add: file_bytes_def empty_file_def)

lemma file_of_Nil: "file_of [] = empty_file"
  by (simp add: file_of_def empty_file_def)

lemma write_at_empty [simp]: "write_at 0 d empty_file = file_of d"
  by (simp add: write_at_def empty_file_def file_of_def)

lemma write_at_start:
  "fsize f = length (fdata f) \<Longrightarrow> write_at 0 d f = file_of (d @ drop (length d) (fdata f))"
  by (cases f) (simp add: write_at_def file_of_def max_def)

lemma write_at_end: "write_at (length s) d (file_of s) = file_of (s @ d)"
  by (simp add: write_at_def file_of_def)

lemma write_at_wf: "length (fdata f) \<le> fsize f \<Longrightarrow> length (fdata (write_at off d f)) \<le> fsize (write_at off d f)"
  by (auto simp: write_at_def)

lemma under_iff: "under d p \<longleftrightarrow> (\<exists>w. p = d @ CHR ''/'' # w)"
proof
  assume "under d p"
  then have "p = (d @ ''/'') @ drop (Suc (length d)) p"
    unfolding under_def by (metis append_take_drop_id)
  then show "\<exists>w. p = d @ CHR ''/'' # w" by auto
qed (auto simp: under_def)

lemma not_under_self [simp]: "\<not> under p p"
  by (simp add: under_iff)

text \<open>A renamed tree: each name comes from one old name, and two new names never from the same one.\<close>

lemma rename_names_src:
  assumes "rename_names p q m r = Some e"
  shows "(\<exists>w. r = q @ w \<and> (w = [] \<or> hd w = CHR ''/'') \<and> m (p @ w) = Some e) \<or>
    (r \<noteq> p \<and> \<not> under p r \<and> r \<noteq> q \<and> \<not> under q r \<and> m r = Some e)"
proof (cases "r = q \<or> under q r")
  case True
  then obtain w where "r = q @ w" "w = [] \<or> hd w = CHR ''/''" by (auto simp: under_iff)
  with True assms show ?thesis by (auto simp: rename_names_def)
next
  case False
  with assms show ?thesis by (auto simp: rename_names_def split: if_splits)
qed

lemma rename_names_inj:
  assumes inj: "\<And>a b. m a = Some e \<Longrightarrow> m b = Some e \<Longrightarrow> a = b"
    and a: "rename_names p q m a = Some e" and b: "rename_names p q m b = Some e"
  shows "a = b"
proof -
  have sep: "p @ w \<noteq> r" if "r \<noteq> p" "\<not> under p r" "w = [] \<or> hd w = CHR ''/''" for w r
    using that by (cases w) (auto simp: under_iff)
  consider (qa) w where "a = q @ w" "w = [] \<or> hd w = CHR ''/''" "m (p @ w) = Some e"
    | (oa) "a \<noteq> p" "\<not> under p a" "m a = Some e"
    using rename_names_src [OF a] by blast
  then show ?thesis
  proof cases
    case (qa w)
    consider (qb) v where "b = q @ v" "m (p @ v) = Some e" | (ob) "b \<noteq> p" "\<not> under p b" "m b = Some e"
      using rename_names_src [OF b] by blast
    then show ?thesis
    proof cases
      case (qb v)
      with inj [OF qa(3) qb(2)] qa(1) show ?thesis by simp
    next
      case ob
      with inj [OF qa(3) ob(3)] sep [OF ob(1,2) qa(2)] show ?thesis by simp
    qed
  next
    case oa
    consider (qb) v where "v = [] \<or> hd v = CHR ''/''" "m (p @ v) = Some e" | (ob) "m b = Some e"
      using rename_names_src [OF b] by blast
    then show ?thesis
    proof cases
      case (qb v)
      with inj [OF qb(2) oa(3)] sep [OF oa(1,2) qb(1)] show ?thesis by simp
    next
      case ob
      with inj [OF oa(3) ob] show ?thesis by simp
    qed
  qed
qed

lemma rename_names_wf:
  assumes "fs_wf h"
  shows "fs_wf (h\<lparr>names := rename_names p q (names h)\<rparr>)"
proof -
  have "a = b" if "rename_names p q (names h) a = Some (File i)"
    "rename_names p q (names h) b = Some (File i)" for a b i
    using fs_wfD(2) [OF assms] that by (rule rename_names_inj)
  moreover have "i < next_ino h" if "rename_names p q (names h) a = Some (File i)" for a i
    using rename_names_src [OF that] fs_wfD(1) [OF assms] by blast
  ultimately show ?thesis using fs_wfD(3) [OF assms] by (simp add: fs_wf_def)
qed

section \<open>Opening, writing, removing\<close>

lemma open_create_new:
  assumes "refuse h OpOpen p = None" and "names h p = None"
  shows "open_create t p h = (Inr (next_ino h),
           h\<lparr>names := (names h)(p := Some (File (next_ino h))),
             files := (files h)(next_ino h := empty_file), next_ino := Suc (next_ino h)\<rparr>)"
  using assms by (simp add: open_create_def)

lemma open_create_refused:
  "refuse h OpOpen p = Some e \<Longrightarrow> open_create t p h = (Inl (PathError ''open'' p e), h)"
  by (simp add: open_create_def)

text \<open>A successful open binds the path to the inode it returns and leaves every other name alone.\<close>

lemma open_create_ok:
  assumes "open_create t p h = (Inr i, h')"
  shows "names h' = (names h)(p := Some (File i))"
    and "\<And>j. j \<noteq> i \<Longrightarrow> files h' j = files h j"
    and "t \<Longrightarrow> files h' i = empty_file"
    and "names h p = None \<Longrightarrow> files h' i = empty_file \<and> i = next_ino h"
    and "\<not> t \<Longrightarrow> names h p \<noteq> None \<Longrightarrow> files h' = files h"
    and "names h p = None \<or> names h p = Some (File i)"
    and "refuse h' = refuse h" and "short h' = short h" and "journal h' = journal h"
    and "spawned h' = spawned h" and "hostfs.more h' = hostfs.more h"
    and "next_ino h \<le> next_ino h'"
    and "fds h' = fds h" and "next_fd h' = next_fd h" and "flocks h' = flocks h"
  using assms
  by (auto simp: open_create_def fun_eq_iff split: option.splits entry.splits if_splits)

lemma open_create_err:
  "open_create t p h = (Inl e, h') \<Longrightarrow> h' = h"
  by (auto simp: open_create_def split: option.splits entry.splits)

lemma open_create_wf:
  assumes "fs_wf h" and "open_create t p h = (r, h')"
  shows "fs_wf h'"
  using assms
  by (fastforce simp: fs_wf_def open_create_def empty_file_def
      split: option.splits entry.splits if_splits)

lemma open_create_content_other:
  assumes "fs_wf h" and "open_create t p h = (r, h')" and "q \<noteq> p"
  shows "content h' q = content h q"
proof (cases r)
  case (Inl e)
  with assms(2) open_create_err show ?thesis by blast
next
  case (Inr i)
  note ok = open_create_ok [OF assms(2) [unfolded Inr]]
  have "names h q \<noteq> Some (File i)"
  proof (cases "names h p = None")
    case True
    then show ?thesis using ok(4) fs_wfD(1) [OF assms(1)] by fastforce
  next
    case False
    then show ?thesis using ok(6) fs_wfD(2) [OF assms(1), of p i q] assms(3) by auto
  qed
  then show ?thesis
    using ok(1,2) assms(3) by (auto simp: content_def split: option.splits entry.splits)
qed

lemma open_create_content_self:
  assumes "open_create True p h = (Inr i, h')"
  shows "content h' p = Some empty_file"
  using open_create_ok(1,3) [OF assms] by (simp add: content_def)

lemma fh_Write_fields [host_simps]:
  "names (snd (fh_Write p i off d h)) = names h"
  "next_ino (snd (fh_Write p i off d h)) = next_ino h"
  "refuse (snd (fh_Write p i off d h)) = refuse h"
  "short (snd (fh_Write p i off d h)) = short h"
  "journal (snd (fh_Write p i off d h)) = journal h"
  "spawned (snd (fh_Write p i off d h)) = spawned h"
  "hostfs.more (snd (fh_Write p i off d h)) = hostfs.more h"
  "fds (snd (fh_Write p i off d h)) = fds h"
  "next_fd (snd (fh_Write p i off d h)) = next_fd h"
  "flocks (snd (fh_Write p i off d h)) = flocks h"
  by (simp_all add: fh_Write_def split: option.splits)

lemma fh_Write_files_other [host_simps]: "j \<noteq> i \<Longrightarrow> files (snd (fh_Write p i off d h)) j = files h j"
  by (simp add: fh_Write_def split: option.splits)

lemma fh_Write_wf: "fs_wf h \<Longrightarrow> fs_wf (snd (fh_Write p i off d h))"
  using write_at_wf by (auto simp: fs_wf_def fh_Write_def split: option.splits)

lemma fh_Truncate_fields [host_simps]:
  "names (snd (fh_Truncate p i n h)) = names h"
  "next_ino (snd (fh_Truncate p i n h)) = next_ino h"
  "refuse (snd (fh_Truncate p i n h)) = refuse h"
  "short (snd (fh_Truncate p i n h)) = short h"
  "journal (snd (fh_Truncate p i n h)) = journal h"
  "spawned (snd (fh_Truncate p i n h)) = spawned h"
  "hostfs.more (snd (fh_Truncate p i n h)) = hostfs.more h"
  "fds (snd (fh_Truncate p i n h)) = fds h"
  "next_fd (snd (fh_Truncate p i n h)) = next_fd h"
  "flocks (snd (fh_Truncate p i n h)) = flocks h"
  by (simp_all add: fh_Truncate_def split: option.splits)

lemma fh_Truncate_wf: "fs_wf h \<Longrightarrow> fs_wf (snd (fh_Truncate p i n h))"
  by (auto simp: fs_wf_def fh_Truncate_def split: option.splits)

lemma fh_op_log_to [host_simps]: "fh_op oper v p (log_to n l m h) = fh_op oper v p h"
  by (simp add: fh_op_def host_simps)

text \<open>
  Writing through an inode changes the contents of one path only, the one bound to the inode.
\<close>

lemma content_files_upd:
  assumes "fs_wf h" and "names h p = Some (File i)"
  shows "content (h\<lparr>files := (files h)(i := f)\<rparr>) q = (if q = p then Some f else content h q)"
  using assms(2) fs_wfD(2) [OF assms(1,2), of q]
  by (cases "names h q") (auto simp: content_def split: entry.splits)

lemma content_fh_Write:
  assumes "fs_wf h" and "names h p = Some (File i)" and "q \<noteq> p"
  shows "content (snd (fh_Write s i off d h)) q = content h q"
  using assms by (simp add: fh_Write_def content_files_upd split: option.splits)

lemma content_fh_Truncate:
  assumes "fs_wf h" and "names h p = Some (File i)" and "q \<noteq> p"
  shows "content (snd (fh_Truncate s i n h)) q = content h q"
  using assms by (simp add: fh_Truncate_def content_files_upd split: option.splits)

section \<open>Write and read back\<close>

lemma os_WriteFile_wf:
  assumes "fs_wf h"
  shows "fs_wf (snd (os_WriteFile p d h))"
proof (cases "open_create True p h")
  case (Pair r h')
  note wf = open_create_wf [OF assms Pair]
  show ?thesis
    using wf fh_Write_wf [OF wf] by (cases r) (simp_all add: os_WriteFile_def Pair)
qed

lemma os_WriteFile_content_other:
  assumes "fs_wf h" and "q \<noteq> p"
  shows "content (snd (os_WriteFile p d h)) q = content h q"
proof (cases "open_create True p h")
  case (Pair r h')
  note wf = open_create_wf [OF assms(1) Pair] and other = open_create_content_other [OF assms(1) Pair assms(2)]
  show ?thesis
  proof (cases r)
    case (Inl e)
    with Pair other show ?thesis by (simp add: os_WriteFile_def)
  next
    case (Inr i)
    with Pair open_create_ok(1) [OF Pair [unfolded Inr]] other wf assms(2)
    show ?thesis by (simp add: os_WriteFile_def content_fh_Write [of h' p])
  qed
qed

lemma os_WriteFile_ok:
  assumes "os_WriteFile p d h = (None, h')"
  shows "content h' p = Some (file_of d)"
proof -
  obtain i h1 where o: "open_create True p h = (Inr i, h1)"
    and w: "fh_Write p i 0 d h1 = (None, h')"
    using assms by (auto simp: os_WriteFile_def split: prod.splits sum.splits)
  from w have h': "h' = h1\<lparr>files := (files h1)(i := write_at 0 d (files h1 i))\<rparr>"
    by (auto simp: fh_Write_def split: option.splits)
  show ?thesis
    using open_create_ok(1,3) [OF o] by (simp add: h' content_def)
qed

lemma os_ReadFile_content:
  assumes "content h p = Some f" and "refuse h OpOpen p = None" and "refuse h OpRead p = None"
  shows "os_ReadFile p h = Inr (file_bytes f)"
  using assms by (auto simp: os_ReadFile_def content_def split: option.splits entry.splits)

lemma content_Some_names: "content h p = Some f \<Longrightarrow> \<exists>i. names h p = Some (File i)"
  by (auto simp: content_def split: option.splits entry.splits)


lemma os_MkdirAll_wf:
  assumes "fs_wf h"
  shows "fs_wf (snd (os_MkdirAll p h))"
proof -
  have "fs_wf (h\<lparr>names := (\<lambda>q. if P q then Some Dir else names h q)\<rparr>)" for P
    using assms unfolding fs_wf_def by simp
  then show ?thesis using assms by (simp add: os_MkdirAll_def split: option.split)
qed

section \<open>Concrete hosts\<close>

text \<open>A host with the given regular files and directories, on which the kernel refuses nothing.\<close>

definition fdesc0 :: fdesc where
  "fdesc0 = \<lparr>fd_path = [], fd_ino = 0, fd_off = 0, fd_open = False\<rparr>"

fun host_names :: "nat \<Rightarrow> (string \<times> string) list \<Rightarrow> string \<Rightarrow> entry option" where
  "host_names i [] p = None"
| "host_names i ((q, d) # fl) p = (if p = q then Some (File i) else host_names (Suc i) fl p)"

definition host_with :: "(string \<times> string) list \<Rightarrow> string list \<Rightarrow> hostfs" where
  "host_with fl ds =
     \<lparr>names = (\<lambda>p. if p \<in> set ds then Some Dir else host_names 0 fl p),
      files = (\<lambda>i. if i < length fl then file_of (snd (fl ! i)) else empty_file),
      next_ino = length fl, fds = (\<lambda>_. fdesc0), next_fd = 0, flocks = (\<lambda>_. None),
      refuse = (\<lambda>_ _. None), short = (\<lambda>_. 0), journal = [], spawned = []\<rparr>"

lemma host_names_bound: "host_names i fl p = Some (File j) \<Longrightarrow> i \<le> j \<and> j < i + length fl"
  by (induction i fl p rule: host_names.induct) (auto split: if_splits)

lemma host_names_inj:
  "host_names i fl p = Some (File j) \<Longrightarrow> host_names i fl q = Some (File j) \<Longrightarrow> p = q"
proof (induction i fl p rule: host_names.induct)
  case (2 i r d fl p)
  then show ?case
    using host_names_bound [of "Suc i" fl p j] host_names_bound [of "Suc i" fl q j]
    by (auto split: if_splits)
qed simp

lemma fs_wf_host_with [simp]: "fs_wf (host_with fl ds)"
  using host_names_bound [of 0 fl] host_names_inj [of 0 fl]
  by (fastforce simp: fs_wf_def host_with_def file_of_def empty_file_def split: if_splits)

lemma refuse_host_with [simp]: "refuse (host_with fl ds) oper p = None"
  by (simp add: host_with_def)

end
