(* ===== verification/Utils.thy ===== *)
theory Utils
  imports Host_FS
begin

text \<open>
  Package \<open>utils\<close> (src/pkg/utils): files, ports, processes, the local time zone, SSH key generation
  and \<open>AcceptTimeout\<close>. What the kernel answers for ports, processes and links is a parameter.
\<close>

section \<open>file.go\<close>

definition PathExists :: "string \<Rightarrow> 'a hostfs_scheme \<Rightarrow> bool res" where
  "PathExists p h =
     (case os_Stat p h of
        Inr _ \<Rightarrow> Inr True
      | Inl e \<Rightarrow> if os_IsNotExist e then Inr False else Inl e)"

text \<open>
  \<open>Copy\<close>: the source is opened before the destination is created, and read after it. When reading or
  writing fails, a part of the data has reached the destination.
\<close>

definition utils_Copy ::
  "string res \<Rightarrow> string \<Rightarrow> string \<Rightarrow> 'a hostfs_scheme \<Rightarrow> goerr option \<times> 'a hostfs_scheme" where
  "utils_Copy wd src dst h =
     (case filepath_Abs wd src of
        Inl e \<Rightarrow> (Some e, h)
      | Inr p \<Rightarrow>
          (case os_Stat p h of
             Inl e \<Rightarrow> (Some e, h)
           | Inr Dir \<Rightarrow> (Some (Msg (p @ '' is not a regular file'')), h)
           | Inr Special \<Rightarrow> (Some (Msg (p @ '' is not a regular file'')), h)
           | Inr (File i) \<Rightarrow>
               (case refuse h OpOpen p of
                  Some e \<Rightarrow> (Some (PathError ''open'' p e), h)
                | None \<Rightarrow>
                    (case open_create True dst h of
                       (Inl e, h1) \<Rightarrow> (Some e, h1)
                     | (Inr j, h1) \<Rightarrow>
                         (let d = file_bytes (files h1 i)
                          in case refuse h1 OpRead p of
                               Some e \<Rightarrow>
                                 (Some (PathError ''read'' p e),
                                  snd (fh_Write dst j 0 (take (short h1 p) d) h1))
                             | None \<Rightarrow>
                                 (case fh_Write dst j 0 d h1 of
                                    (Some e, h2) \<Rightarrow> (Some e, h2)
                                  | (None, h2) \<Rightarrow> (fh_op OpSync ''sync'' dst h2, h2)))))))"

definition CreateSparseFile ::
  "string \<Rightarrow> nat \<Rightarrow> 'a hostfs_scheme \<Rightarrow> goerr option \<times> 'a hostfs_scheme" where
  "CreateSparseFile p sz h =
     (case open_create True p h of
        (Inl e, h1) \<Rightarrow> (Some (Wrap ''create sparse file failed: '' e), h1)
      | (Inr i, h1) \<Rightarrow>
          (case fh_Truncate p i sz h1 of
             (Some e, h2) \<Rightarrow> (Some (Wrap ''truncate sparse file failed: '' e), h2)
           | (None, h2) \<Rightarrow>
               (case fh_op OpSync ''sync'' p h2 of
                  Some e \<Rightarrow> (Some (Wrap ''sync sparse file failed: '' e), h2)
                | None \<Rightarrow>
                    (None, spawn_cmd [''xattr'', ''-w'', ''com.apple.metadata:com_apple_backup_excludeItem'',
                                      ''com.apple.backupd'', p] h2))))"

section \<open>port.go\<close>

text \<open>\<open>busy port\<close> is the error of listening on \<open>127.0.0.1:port\<close>, if the kernel refuses it.\<close>

definition portOccupied :: "(int \<Rightarrow> errno option) \<Rightarrow> int \<Rightarrow> goerr option" where
  "portOccupied busy port =
     (if port < 0 \<or> 65535 < port
      then Some (Wrap ''resolve TCPAddr failed, '' (Msg (''address '' @ strconv_Itoa port @ '': invalid port'')))
      else case busy port of
             Some e \<Rightarrow>
               Some (Wrap (''port '' @ strconv_Itoa port @ '' is occupied, '')
                     (Wrap (''listen tcp 127.0.0.1:'' @ strconv_Itoa port @ '': bind: '') (Errno e)))
           | None \<Rightarrow> None)"

function find_port_loop ::
  "(int \<Rightarrow> errno option) \<Rightarrow> int \<Rightarrow> int \<Rightarrow> goerr option \<Rightarrow> int \<times> goerr option" where
  "find_port_loop busy port maxPort lastErr =
     (if port < maxPort then
        (case portOccupied busy port of
           Some err \<Rightarrow> find_port_loop busy (port + 1) maxPort (Some err)
         | None \<Rightarrow> (port, None))
      else (0, lastErr))"
  by pat_completeness auto
termination
  by (relation "measure (\<lambda>(busy, port, maxPort, e). nat (maxPort - port))") auto

declare find_port_loop.simps [simp del]

definition FindUsablePort :: "(int \<Rightarrow> errno option) \<Rightarrow> int \<Rightarrow> int \<times> goerr option" where
  "FindUsablePort busy startPort = find_port_loop busy startPort (startPort + 100) None"

section \<open>process.go, misc.go, ssh.go\<close>

text \<open>\<open>kill pid sig\<close> is the kernel's answer to \<open>kill(2)\<close>.\<close>

definition SIGTERM :: nat where "SIGTERM = 15"
definition SIGKILL :: nat where "SIGKILL = 9"

definition NotifyProcessSuicide :: "(int \<Rightarrow> nat \<Rightarrow> errno option) \<Rightarrow> int \<Rightarrow> goerr option" where
  "NotifyProcessSuicide kill pid = map_option Errno (kill pid SIGTERM)"

definition ForceKill :: "(int \<Rightarrow> nat \<Rightarrow> errno option) \<Rightarrow> int \<Rightarrow> goerr option" where
  "ForceKill kill pid = map_option Errno (kill pid SIGKILL)"

definition ProcessExists :: "(int \<Rightarrow> nat \<Rightarrow> errno option) \<Rightarrow> int \<Rightarrow> bool" where
  "ProcessExists kill pid = (kill pid 0 = None)"

definition LocalTZ :: "string res \<Rightarrow> string res" where
  "LocalTZ link =
     (case link of
        Inl e \<Rightarrow> Inl (Wrap ''readlink /etc/localtime failed: '' e)
      | Inr tzPath \<Rightarrow> Inr (strings_TrimPrefix tzPath ''/var/db/timezone/zoneinfo''))"

text \<open>
  \<open>GenerateSSHKey\<close>: how the command \<open>ssh-keygen\<close> fares is the parameter \<open>run\<close>: an error of making
  the pipe, an error of starting it, or its effect on the host and the error \<open>Wait\<close> returns. \<open>Wait\<close>
  closes the pipe, so the \<open>io.ReadAll\<close> of it afterwards fails.
\<close>

datatype 'h keygen_run = PipeErr goerr | StartErr goerr | Ran "'h \<Rightarrow> 'h" "goerr option"

definition keygen_args :: "string \<Rightarrow> string list" where
  "keygen_args pn = [''ssh-keygen'', ''-t'', ''ed25519'', ''-f'', pn, ''-N'', []]"

definition GenerateSSHKey ::
  "(string list \<Rightarrow> 'h keygen_run) \<Rightarrow> string \<Rightarrow> string \<Rightarrow> 'h \<Rightarrow> goerr option \<times> 'h" where
  "GenerateSSHKey run p name h =
     (let pn = path_Join [p, name]
      in case run (keygen_args pn) of
           PipeErr e \<Rightarrow> (Some e, h)
         | StartErr e \<Rightarrow> (Some e, h)
         | Ran effect waitErr \<Rightarrow>
             (case waitErr of
                None \<Rightarrow> (None, effect h)
              | Some e \<Rightarrow>
                  (let readAll = (Inl (PathError ''read'' ''|0'' ErrClosed) :: string res)
                   in case readAll of
                        Inl _ \<Rightarrow> (Some (Wrap ''key generation failed, unable to read from stderr: '' e), effect h)
                      | Inr msg \<Rightarrow> (Some (Wrap (''failed to generate keys: '' @ msg @ '': '') e), effect h))))"

section \<open>net.go: AcceptTimeout\<close>

text \<open>
  \<open>AcceptTimeout\<close> starts a goroutine that accepts one connection and sends the result on the channel
  \<open>acc\<close> (capacity 1), and waits in a \<open>select\<close> for the context, the timeout or that channel; its
  \<open>defer\<close> closes \<open>acc\<close>. The state has a counter for each of the two, and the step relation has one rule
  for each of their atomic actions and for what the environment does.
\<close>

datatype caller_pc = Selecting | CloseListener string | Returning | Returned
datatype accepter_pc = Accepting | Sending "goerr option" | Finished

record accept_state =
  caller :: caller_pc
  accepter :: accepter_pc
  acc_buf :: "goerr option list"
  acc_closed :: bool
  conn_var :: "nat option"
  listener_open :: bool
  ctx_done :: bool
  timed_out :: bool
  result :: "(nat option \<times> goerr option) option"
  panicked :: bool

definition accept_init :: accept_state where
  "accept_init = \<lparr>caller = Selecting, accepter = Accepting, acc_buf = [], acc_closed = False,
     conn_var = None, listener_open = True, ctx_done = False, timed_out = False, result = None,
     panicked = False\<rparr>"

text \<open>A send on a closed channel panics; a send to a full buffer waits.\<close>

inductive accept_step :: "string \<Rightarrow> accept_state \<Rightarrow> accept_state \<Rightarrow> bool" for addr where
  env_cancel: "accept_step addr s (s\<lparr>ctx_done := True\<rparr>)"
| env_timeout: "accept_step addr s (s\<lparr>timed_out := True\<rparr>)"
| accept_conn:
    "accepter s = Accepting \<Longrightarrow> listener_open s \<Longrightarrow>
     accept_step addr s (s\<lparr>accepter := Sending None, conn_var := Some c\<rparr>)"
| accept_fail:
    "accepter s = Accepting \<Longrightarrow>
     accept_step addr s (s\<lparr>accepter := Sending (Some e), conn_var := None\<rparr>)"
| send_ok:
    "accepter s = Sending r \<Longrightarrow> \<not> acc_closed s \<Longrightarrow> acc_buf s = [] \<Longrightarrow>
     accept_step addr s (s\<lparr>accepter := Finished, acc_buf := [r]\<rparr>)"
| send_panic:
    "accepter s = Sending r \<Longrightarrow> acc_closed s \<Longrightarrow>
     accept_step addr s (s\<lparr>accepter := Finished, panicked := True\<rparr>)"
| select_ctx:
    "caller s = Selecting \<Longrightarrow> ctx_done s \<Longrightarrow>
     accept_step addr s (s\<lparr>caller :=
       CloseListener (''cancel wait net accept '' @ addr @ '' because ctx done'')\<rparr>)"
| select_timeout:
    "caller s = Selecting \<Longrightarrow> timed_out s \<Longrightarrow>
     accept_step addr s (s\<lparr>caller := CloseListener (''wait net accept timeout '' @ addr)\<rparr>)"
| select_acc:
    "caller s = Selecting \<Longrightarrow> acc_buf s = r # rest \<Longrightarrow>
     accept_step addr s (s\<lparr>caller := Returning, acc_buf := rest, result := Some (conn_var s, r)\<rparr>)"
| close_listener:
    "caller s = CloseListener m \<Longrightarrow>
     accept_step addr s (s\<lparr>caller := Returning, listener_open := False,
       result := Some (conn_var s, Some (Msg m))\<rparr>)"
| deferred_close:
    "caller s = Returning \<Longrightarrow>
     accept_step addr s (s\<lparr>caller := Returned, acc_closed := True\<rparr>)"

abbreviation accept_reachable :: "string \<Rightarrow> accept_state \<Rightarrow> bool" where
  "accept_reachable addr \<equiv> steps (accept_step addr) accept_init"

lemmas accept_start = steps_start [of "accept_step addr" accept_init] for addr
lemmas accept_next = steps_next [of "accept_step addr" accept_init] for addr


section \<open>Files: what the operations guarantee\<close>

lemma PathExists_False: "PathExists p h = Inr False \<Longrightarrow> names h p = None \<or> refuse h OpStat p = Some ENOENT"
  by (auto simp: PathExists_def os_Stat_def split: option.splits sum.splits if_splits)

lemma PathExists_present:
  "refuse h OpStat p = None \<Longrightarrow> PathExists p h = Inr (names h p \<noteq> None)"
  by (simp add: PathExists_def os_Stat_def split: option.splits)

lemma utils_Copy_okE:
  assumes "utils_Copy wd src dst h = (None, h')"
  obtains p i j h1 where "filepath_Abs wd src = Inr p" "names h p = Some (File i)"
    "open_create True dst h = (Inr j, h1)"
    "fh_Write dst j 0 (file_bytes (files h1 i)) h1 = (None, h')"
  using assms
  by (auto simp: utils_Copy_def os_Stat_def Let_def
      split: sum.splits entry.splits option.splits prod.splits)

lemma fh_Write_ok:
  "fh_Write p i off d h = (None, h') \<Longrightarrow>
     h' = h\<lparr>files := (files h)(i := write_at off d (files h i))\<rparr>"
  by (auto simp: fh_Write_def split: option.splits)

lemma copy_correct:
  assumes "fs_wf h" and "filepath_Abs wd src = Inr p" and "content h p = Some f" and "p \<noteq> dst"
    and "utils_Copy wd src dst h = (None, h')"
  shows "content h' dst = Some (file_of (file_bytes f))" and "q \<noteq> dst \<Longrightarrow> content h' q = content h q"
proof -
  obtain i j h1 where i: "names h p = Some (File i)" and o: "open_create True dst h = (Inr j, h1)"
    and w: "fh_Write dst j 0 (file_bytes (files h1 i)) h1 = (None, h')"
    using assms(2,5) by (elim utils_Copy_okE) auto
  note ok = open_create_ok [OF o] and wf1 = open_create_wf [OF assms(1) o]
  have "content h1 p = content h p" by (rule open_create_content_other [OF assms(1) o assms(4)])
  then have "files h1 i = f" using assms(3,4) i ok(1) by (simp add: content_def)
  moreover have nd: "names h1 dst = Some (File j)" "files h1 j = empty_file" using ok(1,3) by simp_all
  ultimately have h': "h' = h1\<lparr>files := (files h1)(j := file_of (file_bytes f))\<rparr>"
    using fh_Write_ok [OF w] by simp
  then show "content h' dst = Some (file_of (file_bytes f))" "q \<noteq> dst \<Longrightarrow> content h' q = content h q"
    using content_files_upd [OF wf1 nd(1)] open_create_content_other [OF assms(1) o] by simp_all
qed



text \<open>Copying a file onto itself empties it: the destination is truncated before the source is read.\<close>

theorem utils_Copy_onto_itself:
  assumes "filepath_Abs wd src = Inr dst" and "utils_Copy wd src dst h = (None, h')"
  shows "content h' dst = Some empty_file"
proof -
  obtain i j h1 where i: "names h dst = Some (File i)" and o: "open_create True dst h = (Inr j, h1)"
    and w: "fh_Write dst j 0 (file_bytes (files h1 i)) h1 = (None, h')"
    using assms by (elim utils_Copy_okE) auto
  note ok = open_create_ok [OF o]
  from i ok(6) have "i = j" by simp
  then show ?thesis
    using fh_Write_ok [OF w] ok(1,3) by (simp add: content_def write_at_def)
qed

lemma CreateSparseFile_ok:
  assumes "fs_wf h" and "CreateSparseFile p sz h = (None, h')"
  shows "content h' p = Some \<lparr>fdata = [], fsize = sz\<rparr>"
    and "q \<noteq> p \<Longrightarrow> content h' q = content h q" and "fs_wf h'"
proof -
  obtain i h1 h2 where o: "open_create True p h = (Inr i, h1)"
    and t: "fh_Truncate p i sz h1 = (None, h2)"
    and h': "h' = spawn_cmd [''xattr'', ''-w'', ''com.apple.metadata:com_apple_backup_excludeItem'',
        ''com.apple.backupd'', p] h2"
    using assms(2) by (auto simp: CreateSparseFile_def split: sum.splits prod.splits option.splits)
  note ok = open_create_ok [OF o] and wf1 = open_create_wf [OF assms(1) o]
  have h2: "h2 = h1\<lparr>files := (files h1)(i := \<lparr>fdata = [], fsize = sz\<rparr>)\<rparr>"
    using t ok(3) by (auto simp: fh_Truncate_def empty_file_def split: option.splits)
  have nd: "names h1 p = Some (File i)" using ok(1) by simp
  show "content h' p = Some \<lparr>fdata = [], fsize = sz\<rparr>" and "q \<noteq> p \<Longrightarrow> content h' q = content h q"
    using content_files_upd [OF wf1 nd] open_create_content_other [OF assms(1) o]
    by (simp_all add: h' h2 host_simps)
  show "fs_wf h'" using fh_Truncate_wf [OF wf1, of p i sz] by (simp add: t h' host_simps)
qed

section \<open>Ports\<close>

lemma find_port_loop_spec:
  "port \<le> maxPort \<Longrightarrow>
   (case find_port_loop busy port maxPort lastErr of
      (r, None) \<Rightarrow> (port \<le> r \<and> r < maxPort \<and> portOccupied busy r = None \<and>
                    (\<forall>q. port \<le> q \<and> q < r \<longrightarrow> portOccupied busy q \<noteq> None)) \<or>
                   (port = maxPort \<and> lastErr = None)
    | (r, Some e) \<Rightarrow> r = 0 \<and> (\<forall>q. port \<le> q \<and> q < maxPort \<longrightarrow> portOccupied busy q \<noteq> None) \<and>
                    Some e = (if port = maxPort then lastErr else portOccupied busy (maxPort - 1)))"
proof (induction busy port maxPort lastErr rule: find_port_loop.induct)
  case (1 busy port maxPort lastErr)
  show ?case
  proof (cases "port < maxPort \<and> portOccupied busy port \<noteq> None")
    case False
    with "1.prems" show ?thesis
      by (subst find_port_loop.simps) (auto split: option.splits)
  next
    case True
    then obtain err where lt: "port < maxPort" and err: "portOccupied busy port = Some err" by auto
    have step: "find_port_loop busy port maxPort lastErr = find_port_loop busy (port + 1) maxPort (Some err)"
      using lt err by (subst find_port_loop.simps) simp
    have ge: "port \<le> q \<longleftrightarrow> q = port \<or> port + 1 \<le> q" for q by arith
    show ?thesis
      using "1.IH" [OF lt err] lt err unfolding step ge
      by (auto split: prod.splits option.splits if_splits)
  qed
qed

lemma FindUsablePort_spec:
  "case FindUsablePort busy start of
     (p, None) \<Rightarrow> start \<le> p \<and> p < start + 100 \<and> portOccupied busy p = None \<and>
                 (\<forall>q. start \<le> q \<and> q < p \<longrightarrow> portOccupied busy q \<noteq> None)
   | (p, Some e) \<Rightarrow> p = 0 \<and> (\<forall>q. start \<le> q \<and> q < start + 100 \<longrightarrow> portOccupied busy q \<noteq> None) \<and>
                   portOccupied busy (start + 99) = Some e"
  using find_port_loop_spec [of start "start + 100" busy None]
  by (auto simp: FindUsablePort_def add.commute split: prod.splits option.splits)


definition busy_below :: "int \<Rightarrow> int \<Rightarrow> errno option" where
  "busy_below m p = (if p < m then Some EADDRINUSE else None)"



section \<open>AcceptTimeout\<close>

inductive_cases accept_stepE: "accept_step addr s t"

text \<open>What the two sides agree on in every state.\<close>

definition accept_inv :: "accept_state \<Rightarrow> bool" where
  "accept_inv s =
     ((accepter s = Finished \<or> acc_buf s = []) \<and>
      (accepter s = Sending None \<longrightarrow> conn_var s \<noteq> None) \<and>
      (acc_buf s = [] \<or> (\<exists>r. acc_buf s = [r] \<and> (r = None \<longrightarrow> conn_var s \<noteq> None) \<and> \<not> panicked s)) \<and>
      (panicked s \<longrightarrow> accepter s = Finished \<and> acc_closed s) \<and>
      (acc_closed s \<longrightarrow> caller s = Returned) \<and>
      (caller s \<in> {Returning, Returned} \<longleftrightarrow> result s \<noteq> None) \<and>
      (\<forall>c. result s = Some (c, None) \<longrightarrow>
         c \<noteq> None \<and> c = conn_var s \<and> accepter s = Finished \<and> acc_buf s = [] \<and> \<not> panicked s))"

lemma accept_inv_init: "accept_inv accept_init"
  by (simp add: accept_inv_def accept_init_def)

lemma accept_inv_step: "accept_step addr s t \<Longrightarrow> accept_inv s \<Longrightarrow> accept_inv t"
  by (erule accept_stepE) (auto simp: accept_inv_def)

interpretation accepting: safe_steps "accept_step addr" accept_inv for addr
  by unfold_locales (rule accept_inv_step)

lemma accept_inv_reachable: "accept_reachable addr s \<Longrightarrow> accept_inv s"
  by (erule accepting.reached) (rule accept_inv_init)

text \<open>
  When \<open>AcceptTimeout\<close> returns without an error, it returns a connection, the goroutine it
  started has ended, and it has not panicked.
\<close>

theorem AcceptTimeout_ok:
  assumes "accept_reachable addr s" and "result s = Some (c, None)"
  shows "c \<noteq> None \<and> accepter s = Finished \<and> \<not> panicked s"
  using accept_inv_reachable [OF assms(1)] assms(2) unfolding accept_inv_def by blast

lemma accept_run:
  "accept_reachable addr s \<Longrightarrow> accept_step addr s t \<Longrightarrow> t = t' \<Longrightarrow> accept_reachable addr t'"
  by (auto intro: accept_next)

definition accepted_state :: accept_state where
  "accepted_state = accept_init\<lparr>accepter := Finished, caller := Returned, acc_closed := True,
     conn_var := Some 7, result := Some (Some 7, None)\<rparr>"

lemma accepted_reachable: "accept_reachable addr accepted_state"
proof -
  have "accept_reachable addr (accept_init\<lparr>accepter := Sending None, conn_var := Some 7\<rparr>)"
    by (rule accept_run [OF accept_start accept_conn]) (simp_all add: accept_init_def)
  then have "accept_reachable addr (accept_init\<lparr>accepter := Finished, conn_var := Some 7, acc_buf := [None]\<rparr>)"
    by (rule accept_run [OF _ send_ok]) (simp_all add: accept_init_def)
  then have "accept_reachable addr (accept_init\<lparr>accepter := Finished, conn_var := Some 7,
      caller := Returning, result := Some (Some 7, None)\<rparr>)"
    by (rule accept_run [OF _ select_acc]) (simp_all add: accept_init_def)
  then show ?thesis
    unfolding accepted_state_def by (rule accept_run [OF _ deferred_close]) (simp_all add: accept_init_def)
qed

theorem AcceptTimeout_ok_witness:
  "result accepted_state = Some (Some 7, None) \<and> accepter accepted_state = Finished \<and>
   \<not> panicked accepted_state"
  using AcceptTimeout_ok [OF accepted_reachable, of "Some 7"] by (simp add: accepted_state_def)

text \<open>
  C40: When the context is done (or the time is up) first, the deferred \<open>close(acc)\<close> can run before the
  goroutine sends the result of the accept that the closed listener ended: a state is reachable in
  which \<open>AcceptTimeout\<close> has returned and the goroutine has panicked with a send on a closed channel.
\<close>

theorem AcceptTimeout_can_panic:
  "\<exists>s. accept_reachable addr s \<and> caller s = Returned \<and> panicked s"
proof -
  let ?m = "''cancel wait net accept '' @ addr @ '' because ctx done''"
  have "accept_reachable addr (accept_init\<lparr>ctx_done := True\<rparr>)"
    by (rule accept_run [OF accept_start env_cancel]) simp
  then have "accept_reachable addr (accept_init\<lparr>ctx_done := True, caller := CloseListener ?m\<rparr>)"
    by (rule accept_run [OF _ select_ctx]) (simp_all add: accept_init_def)
  then have "accept_reachable addr (accept_init\<lparr>ctx_done := True, caller := Returning,
      listener_open := False, result := Some (None, Some (Msg ?m))\<rparr>)"
    by (rule accept_run [OF _ close_listener]) (simp_all add: accept_init_def)
  then have "accept_reachable addr (accept_init\<lparr>ctx_done := True, caller := Returned, acc_closed := True,
      listener_open := False, result := Some (None, Some (Msg ?m))\<rparr>)"
    by (rule accept_run [OF _ deferred_close]) (simp_all add: accept_init_def)
  then have "accept_reachable addr (accept_init\<lparr>ctx_done := True, caller := Returned, acc_closed := True,
      listener_open := False, result := Some (None, Some (Msg ?m)),
      accepter := Sending (Some (Errno ErrClosed)), conn_var := None\<rparr>)"
    by (rule accept_run [OF _ accept_fail]) (simp_all add: accept_init_def)
  then have "accept_reachable addr (accept_init\<lparr>ctx_done := True, caller := Returned, acc_closed := True,
      listener_open := False, result := Some (None, Some (Msg ?m)),
      accepter := Finished, conn_var := None, panicked := True\<rparr>)"
    by (rule accept_run [OF _ send_panic]) (simp_all add: accept_init_def)
  then show ?thesis by fastforce
qed

end
