(* ===== verification/Errgroup.thy ===== *)
theory Errgroup
  imports Ovm_Prelude "HOL-Library.Multiset"
begin

text \<open>
  Goroutine groups (src/vendor/golang.org/x/sync/errgroup/errgroup.go): the first error of the group's
  goroutines is kept and cancels the group's context, and \<open>Wait\<close> blocks until all have returned. No
  part of the program sets a limit, so the semaphore is left out.
\<close>

record group =
  running :: nat
  gerr :: "goerr option"
  has_cancel :: bool
  ctx_cause :: "goerr option"

definition zero_group :: group where
  "zero_group = \<lparr>running = 0, gerr = None, has_cancel = False, ctx_cause = None\<rparr>"

definition WithContext :: group where
  "WithContext = zero_group\<lparr>has_cancel := True\<rparr>"

text \<open>\<open>cancel(err)\<close> of \<open>context.WithCancelCause\<close>: the first call wins; a nil cause is \<open>context.Canceled\<close>.\<close>

definition group_cancel :: "goerr option \<Rightarrow> group \<Rightarrow> group" where
  "group_cancel e g =
     (if has_cancel g \<and> ctx_cause g = None
      then g\<lparr>ctx_cause := Some (case e of None \<Rightarrow> Msg ''context canceled'' | Some x \<Rightarrow> x)\<rparr>
      else g)"

definition group_Go :: "group \<Rightarrow> group" where
  "group_Go g = g\<lparr>running := Suc (running g)\<rparr>"

text \<open>A goroutine of the group returns \<open>e\<close>; \<open>errOnce\<close> has run exactly when the error is set.\<close>

definition group_return :: "goerr option \<Rightarrow> group \<Rightarrow> group" where
  "group_return e g =
     (let g1 = (case (e, gerr g) of
                  (Some x, None) \<Rightarrow> group_cancel (Some x) (g\<lparr>gerr := Some x\<rparr>)
                | _ \<Rightarrow> g)
      in g1\<lparr>running := running g1 - 1\<rparr>)"

text \<open>\<open>Wait\<close>: \<open>None\<close> while a goroutine of the group is running.\<close>

definition group_Wait :: "group \<Rightarrow> (goerr option \<times> group) option" where
  "group_Wait g = (if running g = 0 then Some (gerr g, group_cancel (gerr g) g) else None)"

text \<open>Jobs of a group on a shared state, in the order in which they run.\<close>

definition run_job :: "('j \<Rightarrow> 'h \<Rightarrow> goerr option \<times> 'h) \<Rightarrow> 'j \<Rightarrow> group \<times> 'h \<Rightarrow> group \<times> 'h" where
  "run_job run j gh = (case run j (snd gh) of (e, h) \<Rightarrow> (group_return e (fst gh), h))"

fun run_jobs :: "('j \<Rightarrow> 'h \<Rightarrow> goerr option \<times> 'h) \<Rightarrow> 'j list \<Rightarrow> group \<times> 'h \<Rightarrow> group \<times> 'h" where
  "run_jobs run [] gh = gh"
| "run_jobs run (j # js) gh = run_jobs run js (run_job run j gh)"

text \<open>A group without a context to cancel: start the jobs, let them run in the given order, and wait.\<close>

definition group_run :: "('j \<Rightarrow> 'h \<Rightarrow> goerr option \<times> 'h) \<Rightarrow> 'j list \<Rightarrow> 'h \<Rightarrow> goerr option \<times> 'h" where
  "group_run run js h =
     (case run_jobs run js (zero_group\<lparr>running := length js\<rparr>, h) of
        (g, h') \<Rightarrow> (case group_Wait g of Some (e, _) \<Rightarrow> (e, h') | None \<Rightarrow> (Some (Msg ''blocked''), h')))"

section \<open>The first error\<close>

lemma gerr_group_cancel [simp]: "gerr (group_cancel e g) = gerr g"
  by (simp add: group_cancel_def)

lemma running_group_cancel [simp]: "running (group_cancel e g) = running g"
  by (simp add: group_cancel_def)

lemma gerr_group_return: "gerr (group_return e g) = (case gerr g of None \<Rightarrow> e | Some x \<Rightarrow> Some x)"
  by (simp add: group_return_def Let_def split: option.split)

lemma running_group_return [simp]: "running (group_return e g) = running g - 1"
  by (simp add: group_return_def Let_def split: option.split)

lemma gerr_group_return_None: "gerr (group_return e g) = None \<longleftrightarrow> gerr g = None \<and> e = None"
  by (simp add: gerr_group_return split: option.split)

lemma run_jobs_append: "run_jobs run (xs @ ys) gh = run_jobs run ys (run_jobs run xs gh)"
  by (induction xs arbitrary: gh) simp_all

lemma running_run_jobs: "running (fst (run_jobs run js gh)) = running (fst gh) - length js"
  by (induction js arbitrary: gh) (simp_all add: run_job_def split: prod.split)

lemma gerr_run_jobs: "gerr (fst gh) = Some x \<Longrightarrow> gerr (fst (run_jobs run js gh)) = Some x"
  by (induction js arbitrary: gh) (simp_all add: run_job_def gerr_group_return split: prod.split)

lemma group_run_eq:
  "group_run run js h =
     (gerr (fst (run_jobs run js (zero_group\<lparr>running := length js\<rparr>, h))),
      snd (run_jobs run js (zero_group\<lparr>running := length js\<rparr>, h)))"
proof -
  obtain g h' where r: "run_jobs run js (zero_group\<lparr>running := length js\<rparr>, h) = (g, h')"
    by (rule prod.exhaust)
  then have "running g = 0"
    using running_run_jobs [of run js "(zero_group\<lparr>running := length js\<rparr>, h)"] by simp
  then show ?thesis by (simp add: group_run_def r group_Wait_def)
qed

text \<open>What one job establishes and no job undoes holds at the end, in whatever order the jobs ran.\<close>

lemma run_jobs_keep:
  assumes "Q (snd gh)" and "\<And>i s. i \<in> set js \<Longrightarrow> Q s \<Longrightarrow> Q (snd (run i s))"
  shows "Q (snd (run_jobs run js gh))"
  using assms
proof (induction js arbitrary: gh)
  case (Cons i js)
  have "Q (snd (run_job run i gh))"
    using Cons.prems(2) [of i "snd gh"] Cons.prems(1) by (auto simp: run_job_def split: prod.split)
  then show ?case using Cons.IH Cons.prems(2) by simp
qed simp

lemma run_jobs_establish:
  assumes "gerr (fst (run_jobs run js gh)) = None" and "j \<in> set js"
    and "\<And>s s'. run j s = (None, s') \<Longrightarrow> Q s'" and "\<And>i s. i \<in> set js \<Longrightarrow> i \<noteq> j \<Longrightarrow> Q s \<Longrightarrow> Q (snd (run i s))" and "distinct js"
  shows "Q (snd (run_jobs run js gh))"
  using assms(1,2,4,5)
proof (induction js arbitrary: gh)
  case (Cons i js)
  obtain e s1 where r: "run i (snd gh) = (e, s1)" by (rule prod.exhaust)
  have gh1: "run_job run i gh = (group_return e (fst gh), s1)" using r by (simp add: run_job_def)
  have e: "e = None"
    using Cons.prems(1) gerr_run_jobs [of "(group_return e (fst gh), s1)" _ run js] gh1
    by (cases "gerr (group_return e (fst gh))") (auto simp: gerr_group_return_None)
  show ?case
  proof (cases "i = j")
    case True
    then have "Q (snd (run_job run i gh))" using assms(3) r e gh1 by simp
    then show ?thesis using run_jobs_keep [of Q "run_job run i gh" js run] Cons.prems(3,4) True by auto
  next
    case False
    then show ?thesis using Cons.IH [of "run_job run i gh"] Cons.prems by simp
  qed
qed simp

lemma group_run_establish:
  assumes "group_run run js s = (None, s')" and "j \<in> set js"
    and "\<And>s s'. run j s = (None, s') \<Longrightarrow> Q s'" and "\<And>i s. i \<in> set js \<Longrightarrow> i \<noteq> j \<Longrightarrow> Q s \<Longrightarrow> Q (snd (run i s))" and "distinct js"
  shows "Q s'"
  using run_jobs_establish [of run js "(zero_group\<lparr>running := length js\<rparr>, s)" j Q] assms by (simp add: group_run_eq)

lemma group_run_keep:
  assumes "group_run run js s = (e, s')" and "Q s" and "\<And>i s. i \<in> set js \<Longrightarrow> Q s \<Longrightarrow> Q (snd (run i s))"
  shows "Q s'"
  using run_jobs_keep [of Q "(zero_group\<lparr>running := length js\<rparr>, s)" js run] assms by (auto simp: group_run_eq)

section \<open>Jobs that do not disturb each other\<close>

text \<open>
  The contract under which the order of a group's jobs does not matter: a job keeps the state good,
  changes the view of no path outside its own targets, and a job that ends without an error leaves at
  its targets what it makes (\<open>wants\<close>) of the view of the paths it reads.
\<close>

locale independent_jobs =
  fixes run :: "'j \<Rightarrow> 'h \<Rightarrow> goerr option \<times> 'h"
    and good :: "'h \<Rightarrow> bool"
    and view :: "'h \<Rightarrow> 'p \<Rightarrow> 'v"
    and touches :: "'j \<Rightarrow> 'p set"
    and reads :: "'j \<Rightarrow> 'p set"
    and wants :: "'j \<Rightarrow> ('p \<Rightarrow> 'v) \<Rightarrow> 'p \<Rightarrow> 'v \<Rightarrow> bool"
  assumes run_good: "good h \<Longrightarrow> good (snd (run j h))"
    and run_frame: "good h \<Longrightarrow> p \<notin> touches j \<Longrightarrow> view (snd (run j h)) p = view h p"
    and run_makes: "good h \<Longrightarrow> run j h = (None, h') \<Longrightarrow> p \<in> touches j \<Longrightarrow> wants j (view h) p (view h' p)"
    and wants_reads: "(\<And>q. q \<in> reads j \<Longrightarrow> u q = v q) \<Longrightarrow> wants j u p x \<Longrightarrow> wants j v p x"
begin

lemma run_jobs_good: "good h \<Longrightarrow> good (snd (run_jobs run js (g, h)))"
proof (induction js arbitrary: g h)
  case (Cons j js)
  then show ?case using run_good [OF Cons.prems, of j] by (auto simp: run_job_def split: prod.split)
qed simp

lemma run_jobs_frame:
  "good h \<Longrightarrow> \<forall>j \<in> set js. p \<notin> touches j \<Longrightarrow> view (snd (run_jobs run js (g, h))) p = view h p"
proof (induction js arbitrary: g h)
  case (Cons j js)
  obtain e h1 where r: "run j h = (e, h1)" by (rule prod.exhaust)
  have "good h1" "view h1 p = view h p"
    using run_good [OF Cons.prems(1), of j] run_frame [OF Cons.prems(1), of p j] Cons.prems(2) r by simp_all
  then show ?case using Cons.IH [of h1] Cons.prems(2) r by (simp add: run_job_def)
qed simp

text \<open>Whatever the order: without an error every target holds what its job makes of the initial view.\<close>

lemma run_jobs_makes:
  assumes "good h" and "gerr (fst (run_jobs run js (g, h))) = None" and "distinct js"
    and "\<And>i j. i \<in> set js \<Longrightarrow> j \<in> set js \<Longrightarrow> i \<noteq> j \<Longrightarrow> touches i \<inter> touches j = {}"
    and "\<And>i j. i \<in> set js \<Longrightarrow> j \<in> set js \<Longrightarrow> touches i \<inter> reads j = {}"
    and "j \<in> set js" and "p \<in> touches j"
  shows "wants j (view h) p (view (snd (run_jobs run js (g, h))) p)"
  using assms
proof (induction js arbitrary: g h)
  case (Cons i js)
  obtain e h1 where r: "run i h = (e, h1)" by (rule prod.exhaust)
  have g1: "good h1" using run_good [OF Cons.prems(1), of i] r by simp
  have e: "e = None"
    using Cons.prems(2) gerr_run_jobs [of "(group_return e g, h1)" _ run js] r
    by (cases "gerr (group_return e g)") (auto simp: run_job_def gerr_group_return_None)
  have rest: "run_jobs run (i # js) (g, h) = run_jobs run js (group_return e g, h1)"
    using r by (simp add: run_job_def)
  show ?case
  proof (cases "j = i")
    case True
    have "p \<notin> touches k" if "k \<in> set js" for k
      using Cons.prems(4) [of i k] Cons.prems(3,7) True that by auto
    then have "view (snd (run_jobs run js (group_return e g, h1))) p = view h1 p"
      using run_jobs_frame [OF g1] by blast
    then show ?thesis
      using run_makes [OF Cons.prems(1) r [unfolded e]] Cons.prems(7) True rest by simp
  next
    case False
    then have j: "j \<in> set js" using Cons.prems(6) by simp
    have "wants j (view h1) p (view (snd (run_jobs run js (group_return e g, h1))) p)"
      by (rule Cons.IH [OF g1]) (use Cons.prems rest j in auto)
    moreover have "view h1 q = view h q" if "q \<in> reads j" for q
      using run_frame [OF Cons.prems(1), of q i] Cons.prems(5) [of i j] that j r by auto
    ultimately show ?thesis using wants_reads rest by metis
  qed
qed simp

end

end
