(* ===== verification/Go_Json.thy ===== *)
theory Go_Json
  imports Go_Strings
begin

text \<open>
  The part of Go's \<open>encoding/json\<close> the program uses: the text of a JSON value, the parser, and the
  decoding of an object into a struct. Strings are byte strings; bytes from 0x80 on are passed through,
  which is what Go does for valid UTF-8 other than U+2028 and U+2029. The nesting limit of the Go
  parser (10000) is not modelled.
\<close>

datatype json =
    JNull
  | JBool bool
  | JNum string
  | JStr string
  | JArr "json list"
  | JObj "(string \<times> json) list"

section \<open>Printing\<close>

definition json_char :: "char \<Rightarrow> string" where
  "json_char c =
     (let n = (of_char c :: nat); bs = CHR 0x5C
      in if n = 34 \<or> n = 92 then [bs, c]
         else if n = 10 then [bs, CHR ''n''] else if n = 13 then [bs, CHR ''r'']
         else if n = 9 then [bs, CHR ''t'']
         else if n < 32 \<or> n = 60 \<or> n = 62 \<or> n = 38
              then [bs, CHR ''u'', CHR ''0'', CHR ''0'', hex_digit (n div 16), hex_digit (n mod 16)]
         else [c])"

definition json_quote :: "string \<Rightarrow> string" where
  "json_quote s = [CHR 0x22] @ concat (map json_char s) @ [CHR 0x22]"

fun json_print :: "json \<Rightarrow> string" where
  "json_print JNull = ''null''"
| "json_print (JBool b) = (if b then ''true'' else ''false'')"
| "json_print (JNum n) = n"
| "json_print (JStr s) = json_quote s"
| "json_print (JArr xs) = ''['' @ strings_Join (map json_print xs) '','' @ '']''"
| "json_print (JObj kvs) = ''{'' @ strings_Join (map (\<lambda>(k, v). json_quote k @ '':'' @ json_print v) kvs) '','' @ ''}''"

section \<open>Parsing\<close>

definition json_ws :: "string \<Rightarrow> string" where
  "json_ws s = dropWhile (\<lambda>c. c \<in> {CHR '' '', CHR 0x09, CHR 0x0A, CHR 0x0D}) s"

fun hex4 :: "string \<Rightarrow> (nat \<times> string) option" where
  "hex4 (a # b # c # d # s) =
     (case (hex_val a, hex_val b, hex_val c, hex_val d) of
        (Some x, Some y, Some z, Some w) \<Rightarrow> Some (((x * 16 + y) * 16 + z) * 16 + w, s)
      | _ \<Rightarrow> None)"
| "hex4 _ = None"

text \<open>The UTF-8 bytes of a code point, and what a \<open>\u\<close> escape stands for: surrogates without a partner become U+FFFD.\<close>

definition utf8 :: "nat \<Rightarrow> string" where
  "utf8 n =
     (if n < 128 then [char_of n]
      else if n < 2048 then [char_of (192 + n div 64), char_of (128 + n mod 64)]
      else if n < 65536
           then [char_of (224 + n div 4096), char_of (128 + n div 64 mod 64), char_of (128 + n mod 64)]
      else [char_of (240 + n div 262144), char_of (128 + n div 4096 mod 64),
            char_of (128 + n div 64 mod 64), char_of (128 + n mod 64)])"

definition unescape_u :: "nat \<Rightarrow> string \<Rightarrow> string \<times> string" where
  "unescape_u n s =
     (if n < 55296 \<or> 57344 \<le> n then (utf8 n, s)
      else if n < 56320 then
        (case s of
           x # y # s' \<Rightarrow>
             if x = CHR 0x5C \<and> y = CHR ''u'' then
               (case hex4 s' of
                  Some (m, s'') \<Rightarrow>
                    if 56320 \<le> m \<and> m < 57344 then (utf8 ((n - 55296) * 1024 + (m - 56320) + 65536), s'')
                    else (utf8 65533, s)
                | None \<Rightarrow> (utf8 65533, s))
             else (utf8 65533, s)
         | _ \<Rightarrow> (utf8 65533, s))
      else (utf8 65533, s))"

lemma hex4_length: "hex4 s = Some (n, t) \<Longrightarrow> length t < length s"
  by (induction s rule: hex4.induct) (auto split: option.splits)

lemma unescape_u_length: "unescape_u n s = (u, t) \<Longrightarrow> length t \<le> length s"
  by (auto simp: unescape_u_def dest!: hex4_length split: list.splits option.splits if_splits prod.splits)

text \<open>The body of a string, after its opening quote: the string and the text after the closing quote.\<close>

function (sequential) parse_chars :: "string \<Rightarrow> (string \<times> string) option" where
  "parse_chars [] = None"
| "parse_chars (c # s) =
     (if c = CHR 0x22 then Some ([], s)
      else if (of_char c :: nat) < 32 then None
      else if c \<noteq> CHR 0x5C then map_option (\<lambda>(t, r). (c # t, r)) (parse_chars s)
      else case s of
        [] \<Rightarrow> None
      | e # s' \<Rightarrow>
          if e = CHR ''u'' then
            (case hex4 s' of
               None \<Rightarrow> None
             | Some (n, s'') \<Rightarrow>
                 (case unescape_u n s'' of
                    (u, s3) \<Rightarrow> map_option (\<lambda>(t, r). (u @ t, r)) (parse_chars s3)))
          else
            (case (if e = CHR 0x22 \<or> e = CHR 0x5C \<or> e = CHR ''/'' then Some e
                   else if e = CHR ''b'' then Some (CHR 0x08) else if e = CHR ''f'' then Some (CHR 0x0C)
                   else if e = CHR ''n'' then Some (CHR 0x0A) else if e = CHR ''r'' then Some (CHR 0x0D)
                   else if e = CHR ''t'' then Some (CHR 0x09) else None) of
               None \<Rightarrow> None
             | Some x \<Rightarrow> map_option (\<lambda>(t, r). (x # t, r)) (parse_chars s')))"
  by pat_completeness auto
termination
  by (relation "measure length") (auto dest!: hex4_length unescape_u_length [OF sym])

text \<open>A number: the longest prefix of the JSON grammar.\<close>

definition take_digits :: "string \<Rightarrow> string \<times> string" where
  "take_digits s = (takeWhile is_digit s, dropWhile is_digit s)"

definition parse_number :: "string \<Rightarrow> (string \<times> string) option" where
  "parse_number s =
     (let (sg, s1) = (case s of c # t \<Rightarrow> if c = CHR ''-'' then (''-'', t) else ([], s) | [] \<Rightarrow> ([], s));
          (ds, s2) = take_digits s1
      in if ds = [] then None
         else
           let (ip, s3) = (if hd ds = CHR ''0'' then (''0'', drop 1 s1) else (ds, s2));
               (fp, s4) =
                 (case s3 of
                    c # t \<Rightarrow>
                      if c = CHR ''.'' then
                        (let (fs, t') = take_digits t in if fs = [] then (None, s3) else (Some (''.'' @ fs), t'))
                      else (Some [], s3)
                  | [] \<Rightarrow> (Some [], s3))
           in case fp of
                None \<Rightarrow> None
              | Some f \<Rightarrow>
                  (case s4 of
                     c # t \<Rightarrow>
                       if c = CHR ''e'' \<or> c = CHR ''E'' then
                         (let (es, t1) = (case t of x # t' \<Rightarrow> if x = CHR ''+'' \<or> x = CHR ''-'' then ([x], t') else ([], t)
                                                  | [] \<Rightarrow> ([], t));
                              (xs, t2) = take_digits t1
                          in if xs = [] then None else Some (sg @ ip @ f @ [c] @ es @ xs, t2))
                       else Some (sg @ ip @ f, s4)
                   | [] \<Rightarrow> Some (sg @ ip @ f, s4)))"

text \<open>Values, the elements of an array and the members of an object; white space before them is skipped.\<close>

fun parse_value :: "nat \<Rightarrow> string \<Rightarrow> (json \<times> string) option"
  and parse_elems :: "nat \<Rightarrow> string \<Rightarrow> (json list \<times> string) option"
  and parse_members :: "nat \<Rightarrow> string \<Rightarrow> ((string \<times> json) list \<times> string) option" where
  "parse_value 0 s = None"
| "parse_value (Suc n) s =
     (case json_ws s of
        [] \<Rightarrow> None
      | c # t \<Rightarrow>
          if c = CHR ''{'' then
            (case json_ws t of
               [] \<Rightarrow> None
             | d # t' \<Rightarrow> if d = CHR ''}'' then Some (JObj [], t')
                         else map_option (\<lambda>(kvs, r). (JObj kvs, r)) (parse_members n (d # t')))
          else if c = CHR ''['' then
            (case json_ws t of
               [] \<Rightarrow> None
             | d # t' \<Rightarrow> if d = CHR '']'' then Some (JArr [], t')
                         else map_option (\<lambda>(xs, r). (JArr xs, r)) (parse_elems n (d # t')))
          else if c = CHR 0x22 then map_option (\<lambda>(x, r). (JStr x, r)) (parse_chars t)
          else if strings_HasPrefix (c # t) ''null'' then Some (JNull, drop 4 (c # t))
          else if strings_HasPrefix (c # t) ''true'' then Some (JBool True, drop 4 (c # t))
          else if strings_HasPrefix (c # t) ''false'' then Some (JBool False, drop 5 (c # t))
          else map_option (\<lambda>(x, r). (JNum x, r)) (parse_number (c # t)))"
| "parse_elems 0 s = None"
| "parse_elems (Suc n) s =
     (case parse_value n s of
        None \<Rightarrow> None
      | Some (x, s1) \<Rightarrow>
          (case json_ws s1 of
             [] \<Rightarrow> None
           | c # t \<Rightarrow>
               if c = CHR '']'' then Some ([x], t)
               else if c = CHR '','' then map_option (\<lambda>(xs, r). (x # xs, r)) (parse_elems n t)
               else None))"
| "parse_members 0 s = None"
| "parse_members (Suc n) s =
     (case json_ws s of
        [] \<Rightarrow> None
      | q # t \<Rightarrow>
          if q \<noteq> CHR 0x22 then None
          else
            (case parse_chars t of
               None \<Rightarrow> None
             | Some (k, s1) \<Rightarrow>
                 (case json_ws s1 of
                    [] \<Rightarrow> None
                  | col # s2 \<Rightarrow>
                      if col \<noteq> CHR '':'' then None
                      else
                        (case parse_value n s2 of
                           None \<Rightarrow> None
                         | Some (v, s3) \<Rightarrow>
                             (case json_ws s3 of
                                [] \<Rightarrow> None
                              | c # s4 \<Rightarrow>
                                  if c = CHR ''}'' then Some ([(k, v)], s4)
                                  else if c = CHR '','' then map_option (\<lambda>(kvs, r). ((k, v) # kvs, r)) (parse_members n s4)
                                  else None)))))"

text \<open>Each nested call has consumed a character at most two calls later, so this fuel is enough.\<close>

definition json_fuel :: "string \<Rightarrow> nat" where
  "json_fuel s = 2 * length s + 2"

text \<open>\<open>json.Unmarshal\<close> wants one value and nothing but white space after it; \<open>Decoder.Decode\<close> leaves the rest.\<close>

definition json_parse :: "string \<Rightarrow> json option" where
  "json_parse s =
     (case parse_value (json_fuel s) s of
        Some (j, r) \<Rightarrow> if json_ws r = [] then Some j else None
      | None \<Rightarrow> None)"

definition json_decode_first :: "string \<Rightarrow> json option" where
  "json_decode_first s = map_option fst (parse_value (json_fuel s) s)"

section \<open>Decoding into a struct\<close>

text \<open>
  An object is decoded member by member, in order; the field is found by its name, letter case
  ignored if there is no exact match. \<open>put k v\<close> sets the field \<open>k\<close>, or is \<open>None\<close> when the value has the
  wrong type: that is an error in the end, but the other members are still decoded. \<open>null\<close> changes nothing.
\<close>

definition field_for :: "string list \<Rightarrow> string \<Rightarrow> string option" where
  "field_for fields k =
     (if k \<in> set fields then Some k
      else find (\<lambda>f. strings_ToLower f = strings_ToLower k) fields)"

fun decode_members ::
  "string list \<Rightarrow> (string \<Rightarrow> json \<Rightarrow> 'v \<Rightarrow> 'v option) \<Rightarrow> (string \<times> json) list \<Rightarrow> bool \<times> 'v \<Rightarrow> bool \<times> 'v" where
  "decode_members fields put [] st = st"
| "decode_members fields put ((k, j) # kvs) (bad, v) =
     decode_members fields put kvs
       (case field_for fields k of
          None \<Rightarrow> (bad, v)
        | Some f \<Rightarrow>
            if j = JNull then (bad, v)
            else (case put f j v of None \<Rightarrow> (True, v) | Some v' \<Rightarrow> (bad, v')))"

definition decode_struct ::
  "string list \<Rightarrow> (string \<Rightarrow> json \<Rightarrow> 'v \<Rightarrow> 'v option) \<Rightarrow> json option \<Rightarrow> 'v \<Rightarrow> goerr option \<times> 'v" where
  "decode_struct fields put j v =
     (case j of
        None \<Rightarrow> (Some (Msg ''invalid JSON''), v)
      | Some JNull \<Rightarrow> (None, v)
      | Some (JObj kvs) \<Rightarrow>
          (case decode_members fields put kvs (False, v) of
             (bad, v') \<Rightarrow> (if bad then Some (Msg ''json: cannot unmarshal value'') else None, v'))
      | Some _ \<Rightarrow> (Some (Msg ''json: cannot unmarshal value''), v))"

section \<open>Round trip\<close>

lemma hex_val_hex_digit: "d < 16 \<Longrightarrow> hex_val (hex_digit d) = Some d"
  by (auto simp: hex_val_def hex_digit_def Let_def)

lemma unescape_u_byte: "n < 128 \<Longrightarrow> unescape_u n s = ([char_of n], s)"
  by (simp add: unescape_u_def utf8_def)

lemma char_of_char_eq:
  "(of_char c = (92 :: nat)) = (c = CHR 0x5C)" "(of_char c = (34 :: nat)) = (c = CHR 0x22)"
  "(of_char c = (10 :: nat)) = (c = CHR 0x0A)" "(of_char c = (13 :: nat)) = (c = CHR 0x0D)"
  "(of_char c = (9 :: nat)) = (c = CHR 0x09)"
proof -
  have eq: "(of_char c = (of_char d :: nat)) = (c = d)" for d by simp
  show "(of_char c = (92 :: nat)) = (c = CHR 0x5C)" using eq [of "CHR 0x5C"] by (simp del: of_char_eq_iff)
  show "(of_char c = (34 :: nat)) = (c = CHR 0x22)" using eq [of "CHR 0x22"] by (simp del: of_char_eq_iff)
  show "(of_char c = (10 :: nat)) = (c = CHR 0x0A)" using eq [of "CHR 0x0A"] by (simp del: of_char_eq_iff)
  show "(of_char c = (13 :: nat)) = (c = CHR 0x0D)" using eq [of "CHR 0x0D"] by (simp del: of_char_eq_iff)
  show "(of_char c = (9 :: nat)) = (c = CHR 0x09)" using eq [of "CHR 0x09"] by (simp del: of_char_eq_iff)
qed

lemma parse_chars_json_char:
  "parse_chars (json_char c @ s) = map_option (\<lambda>(t, r). (c # t, r)) (parse_chars s)"
proof -
  let ?n = "of_char c :: nat"
  consider (hex) "(?n < 32 \<and> ?n \<noteq> 10 \<and> ?n \<noteq> 13 \<and> ?n \<noteq> 9) \<or> ?n = 60 \<or> ?n = 62 \<or> ?n = 38"
    | (short) "c \<in> {CHR 0x5C, CHR 0x22, CHR 0x0A, CHR 0x0D, CHR 0x09}"
    | (plain) "\<not> ?n < 32" "?n \<noteq> 60" "?n \<noteq> 62" "?n \<noteq> 38" "?n \<noteq> 34" "?n \<noteq> 92" "c \<noteq> CHR 0x22" "c \<noteq> CHR 0x5C"
    by (auto simp: char_of_char_eq)
  then show ?thesis
  proof cases
    case hex
    then have "?n < 128" by auto
    have j: "json_char c = [CHR 0x5C, CHR ''u'', CHR ''0'', CHR ''0'', hex_digit (?n div 16), hex_digit (?n mod 16)]"
      using hex by (auto simp: json_char_def Let_def)
    have "hex_val (CHR ''0'') = Some 0" by code_simp
    moreover have "hex_val (hex_digit (?n div 16)) = Some (?n div 16)"
      "hex_val (hex_digit (?n mod 16)) = Some (?n mod 16)"
      using \<open>?n < 128\<close> by (auto intro!: hex_val_hex_digit)
    ultimately have "hex4 (CHR ''0'' # CHR ''0'' # hex_digit (?n div 16) # hex_digit (?n mod 16) # s) = Some (?n, s)"
      by simp
    then show ?thesis
      unfolding j append_Cons append_Nil parse_chars.simps(2) using unescape_u_byte [OF \<open>?n < 128\<close>, of s] by simp
  next
    case short
    then show ?thesis by (elim insertE emptyE; simp add: json_char_def Let_def)
  next
    case plain
    then have "json_char c = [c]" by (simp add: json_char_def Let_def)
    then show ?thesis using plain by simp
  qed
qed

lemma parse_chars_quote: "parse_chars (concat (map json_char s) @ CHR 0x22 # r) = Some (s, r)"
  by (induction s) (simp_all add: parse_chars_json_char del: parse_chars.simps(2), simp)

text \<open>
  The values that are printed and read back: numbers are those the program prints, decimal and not
  negative. The text after a value must not continue a number.
\<close>

fun plain_json :: "json \<Rightarrow> bool" where
  "plain_json (JNum n) = (n \<noteq> [] \<and> list_all is_digit n \<and> (hd n \<noteq> CHR ''0'' \<or> n = ''0''))"
| "plain_json (JArr xs) = list_all plain_json xs"
| "plain_json (JObj kvs) = list_all (\<lambda>(k, v). plain_json v) kvs"
| "plain_json _ = True"

definition ends_value :: "string \<Rightarrow> bool" where
  "ends_value r = (r = [] \<or> hd r \<in> {CHR '','', CHR '']'', CHR ''}'', CHR 0x0A})"

fun json_need :: "json \<Rightarrow> nat" where
  "json_need (JArr xs) = Suc (sum_list (map (\<lambda>x. Suc (json_need x)) xs))"
| "json_need (JObj kvs) = Suc (sum_list (map (\<lambda>(k, v). Suc (json_need v)) kvs))"
| "json_need _ = 1"

lemma ends_value_cons: "ends_value (c # r) \<longleftrightarrow> c \<in> {CHR '','', CHR '']'', CHR ''}'', CHR 0x0A}"
  by (simp add: ends_value_def)

lemma json_ws_idle: "c \<notin> {CHR '' '', CHR 0x09, CHR 0x0A, CHR 0x0D} \<Longrightarrow> json_ws (c # s) = c # s"
  by (simp add: json_ws_def)

lemma parse_number_plain:
  assumes "plain_json (JNum n)" and "ends_value r"
  shows "parse_number (n @ r) = Some (n, r)"
proof -
  obtain c m where n: "n = c # m" using assms(1) by (cases n) auto
  have d: "list_all is_digit n" using assms(1) by simp
  have r: "r = [] \<or> (\<not> is_digit (hd r) \<and> hd r \<noteq> CHR ''.'' \<and> hd r \<noteq> CHR ''e'' \<and> hd r \<noteq> CHR ''E'')"
    using assms(2) by (auto simp: ends_value_def is_digit_def)
  then have t: "takeWhile is_digit (n @ r) = n" "dropWhile is_digit (n @ r) = r"
    using d by (cases r; simp add: list_all_iff takeWhile_append dropWhile_append)+
  then have td: "take_digits (n @ r) = (n, r)" by (simp add: take_digits_def)
  have "c \<noteq> CHR ''-''" using d n not_is_digit_sign by auto
  then have sg: "(case n @ r of c # t \<Rightarrow> if c = CHR ''-'' then (''-'', t) else ([], n @ r) | [] \<Rightarrow> ([], n @ r)) = ([], n @ r)"
    using n by simp
  have ip: "(if hd n = CHR ''0'' then (''0'', drop 1 (n @ r)) else (n, r)) = (n, r)"
    using assms(1) by auto
  have "n \<noteq> []" using n by simp
  then show ?thesis
    unfolding parse_number_def Let_def sg prod.case td ip using r by (cases r) auto
qed

text \<open>The first character of a value decides the branch of the parser, and is never white space.\<close>

lemma parse_value_num:
  assumes "plain_json (JNum n)" and "ends_value r"
  shows "parse_value (Suc k) (n @ r) = Some (JNum n, r)"
proof -
  obtain c m where n: "n = c # m" using assms(1) by (cases n) auto
  have "is_digit c" using assms(1) n by simp
  then have c: "c \<notin> {CHR '' '', CHR 0x09, CHR 0x0A, CHR 0x0D, CHR ''{'', CHR ''['', CHR 0x22, CHR ''n'', CHR ''t'', CHR ''f''}"
    by (auto simp: is_digit_def)
  then show ?thesis
    using parse_number_plain [OF assms] n by (simp add: json_ws_idle strings_HasPrefix_def)
qed

lemma json_print_head:
  assumes "plain_json j"
  obtains c t where "json_print j = c # t" and "c \<notin> {CHR '' '', CHR 0x09, CHR 0x0A, CHR 0x0D, CHR '']'', CHR ''}''}"
proof (cases j)
  case (JNum n)
  then obtain c m where n: "n = c # m" "is_digit c" using assms by (cases n) auto
  show ?thesis by (rule that [of c m]) (use n JNum in \<open>auto simp: is_digit_def\<close>)
next
  case (JBool b)
  then show ?thesis by (cases b) (auto intro: that)
qed (auto intro: that simp: json_quote_def)

lemma parse_elems_print:
  assumes "\<And>x n r. x \<in> set xs \<Longrightarrow> json_need x \<le> n \<Longrightarrow> ends_value r \<Longrightarrow> parse_value n (json_print x @ r) = Some (x, r)"
    and "xs \<noteq> []" and "sum_list (map (\<lambda>x. Suc (json_need x)) xs) \<le> n"
  shows "parse_elems n (strings_Join (map json_print xs) '','' @ CHR '']'' # r) = Some (xs, r)"
  using assms
proof (induction xs arbitrary: n)
  case (Cons x xs)
  then obtain k where n: "n = Suc k" "json_need x \<le> k" "sum_list (map (\<lambda>x. Suc (json_need x)) xs) \<le> k"
    by (cases n) auto
  have x: "parse_value k (json_print x @ s) = Some (x, s)" if "ends_value s" for s
    using Cons.prems(1) n(2) that by simp
  show ?case
  proof (cases xs)
    case Nil
    then show ?thesis using x [of "CHR '']'' # r"] n(1) by (simp add: ends_value_def json_ws_def)
  next
    case (Cons y ys)
    let ?rest = "strings_Join (map json_print xs) '','' @ CHR '']'' # r"
    have "parse_elems k ?rest = Some (xs, r)"
      using Cons.IH [of k] Cons.prems(1) n(3) Cons by auto
    moreover have "strings_Join (map json_print (x # xs)) '','' @ CHR '']'' # r = json_print x @ CHR '','' # ?rest"
      using Cons by simp
    moreover have "parse_value k (json_print x @ CHR '','' # ?rest) = Some (x, CHR '','' # ?rest)"
      by (rule x) (simp add: ends_value_def)
    ultimately show ?thesis using n(1) by (simp add: json_ws_def del: strings_Join.simps)
  qed
qed simp

lemma parse_members_print:
  assumes "\<And>k v n r. (k, v) \<in> set kvs \<Longrightarrow> json_need v \<le> n \<Longrightarrow> ends_value r \<Longrightarrow> parse_value n (json_print v @ r) = Some (v, r)"
    and "kvs \<noteq> []" and "sum_list (map (\<lambda>(k, v). Suc (json_need v)) kvs) \<le> n"
  shows "parse_members n (strings_Join (map (\<lambda>(k, v). json_quote k @ '':'' @ json_print v) kvs) '','' @ CHR ''}'' # r) = Some (kvs, r)"
  using assms
proof (induction kvs arbitrary: n)
  case (Cons kv kvs)
  obtain k v where kv: "kv = (k, v)" by (rule prod.exhaust)
  obtain m where n: "n = Suc m" "json_need v \<le> m" "sum_list (map (\<lambda>(k, v). Suc (json_need v)) kvs) \<le> m"
    using Cons.prems(3) kv by (cases n) auto
  let ?pr = "\<lambda>(k, v). json_quote k @ '':'' @ json_print v"
  have v: "parse_value m (json_print v @ s) = Some (v, s)" if "ends_value s" for s
    using Cons.prems(1) [of k v] kv n(2) that by simp
  have one: "parse_members n (json_quote k @ '':'' @ json_print v @ s) =
      (case json_ws s of [] \<Rightarrow> None | c # s4 \<Rightarrow> if c = CHR ''}'' then Some ([(k, v)], s4)
        else if c = CHR '','' then map_option (\<lambda>(kvs, r). ((k, v) # kvs, r)) (parse_members m s4) else None)"
    if "ends_value s" for s
    using v [OF that] parse_chars_quote [of k] n(1)
    by (simp add: json_quote_def json_ws_def)
  show ?case
  proof (cases kvs)
    case Nil
    then show ?thesis using one [of "CHR ''}'' # r"] kv by (simp add: ends_value_def json_ws_def)
  next
    case (Cons y ys)
    let ?rest = "strings_Join (map ?pr kvs) '','' @ CHR ''}'' # r"
    have "parse_members m ?rest = Some (kvs, r)"
      using Cons.IH [of m] Cons.prems(1) n(3) Cons by auto
    moreover have "strings_Join (map ?pr (kv # kvs)) '','' @ CHR ''}'' # r = json_quote k @ '':'' @ json_print v @ CHR '','' # ?rest"
      using Cons kv by simp
    ultimately show ?thesis using one [of "CHR '','' # ?rest"] kv
      by (simp add: ends_value_def json_ws_def del: strings_Join.simps parse_members.simps)
  qed
qed simp

lemma strings_Join_head: "xs = (c # t) # ys \<Longrightarrow> \<exists>u. strings_Join xs sep = c # u"
  by (cases ys) auto

lemma parse_value_arr:
  assumes "parse_elems k (strings_Join (map json_print xs) '','' @ CHR '']'' # r) = Some (xs, r)" and "xs = y # ys" and "plain_json y"
  shows "parse_value (Suc k) (json_print (JArr xs) @ r) = Some (JArr xs, r)"
proof -
  obtain c t where y: "json_print y = c # t" and c: "c \<notin> {CHR '' '', CHR 0x09, CHR 0x0A, CHR 0x0D, CHR '']'', CHR ''}''}"
    using assms(3) by (rule json_print_head)
  obtain u where u: "strings_Join (map json_print xs) '','' = c # u"
    using strings_Join_head [of "map json_print xs" c t] assms(2) y by auto
  then have "json_print (JArr xs) @ r = CHR ''['' # c # u @ CHR '']'' # r" by simp
  then show ?thesis using assms(1) c u by (simp add: json_ws_def del: json_print.simps)
qed

lemma parse_value_obj:
  assumes "parse_members k (strings_Join (map (\<lambda>(k, v). json_quote k @ '':'' @ json_print v) kvs) '','' @ CHR ''}'' # r) = Some (kvs, r)"
    and "kvs = y # ys"
  shows "parse_value (Suc k) (json_print (JObj kvs) @ r) = Some (JObj kvs, r)"
proof -
  let ?pr = "\<lambda>(k, v). json_quote k @ '':'' @ json_print v"
  obtain t where y: "?pr y = CHR 0x22 # t" by (cases y) (simp add: json_quote_def)
  obtain u where u: "strings_Join (map ?pr kvs) '','' = CHR 0x22 # u"
    using strings_Join_head [of "map ?pr kvs" "CHR 0x22" t] assms(2) y by auto
  then have "json_print (JObj kvs) @ r = CHR ''{'' # CHR 0x22 # u @ CHR ''}'' # r" by simp
  then show ?thesis using assms(1) u by (simp add: json_ws_def del: json_print.simps)
qed

lemma parse_value_print:
  "plain_json j \<Longrightarrow> json_need j \<le> n \<Longrightarrow> ends_value r \<Longrightarrow> parse_value n (json_print j @ r) = Some (j, r)"
proof (induction j arbitrary: n r)
  case (JNum x)
  then show ?case using parse_value_num [of x r "n - 1"] by simp
next
  case (JStr x)
  then obtain k where "n = Suc k" by (cases n) auto
  then show ?case using parse_chars_quote [of x r] by (simp add: json_quote_def json_ws_def)
next
  case (JArr xs)
  then obtain k where n: "n = Suc k" "sum_list (map (\<lambda>x. Suc (json_need x)) xs) \<le> k" by (cases n) auto
  show ?case
  proof (cases xs)
    case (Cons y ys)
    have "parse_elems k (strings_Join (map json_print xs) '','' @ CHR '']'' # r) = Some (xs, r)"
      by (rule parse_elems_print) (use JArr Cons n(2) in \<open>auto simp: list_all_iff\<close>)
    then show ?thesis unfolding n(1) by (rule parse_value_arr [OF _ Cons]) (use JArr.prems(1) Cons in simp)
  qed (simp add: n(1) json_ws_def)
next
  case (JObj kvs)
  then obtain k where n: "n = Suc k" "sum_list (map (\<lambda>(k, v). Suc (json_need v)) kvs) \<le> k" by (cases n) auto
  show ?case
  proof (cases kvs)
    case (Cons y ys)
    have "parse_members k (strings_Join (map (\<lambda>(k, v). json_quote k @ '':'' @ json_print v) kvs) '','' @ CHR ''}'' # r) = Some (kvs, r)"
      by (rule parse_members_print) (use JObj Cons n(2) in \<open>fastforce simp: list_all_iff\<close>)+
    then show ?thesis unfolding n(1) by (rule parse_value_obj [OF _ Cons])
  qed (simp add: n(1) json_ws_def)
next
  case JNull
  then obtain k where "n = Suc k" by (cases n) auto
  then show ?case by (simp add: json_ws_def strings_HasPrefix_def)
next
  case (JBool b)
  then obtain k where "n = Suc k" by (cases n) auto
  then show ?case by (cases b) (simp_all add: json_ws_def strings_HasPrefix_def)
qed

lemma length_strings_Join: "length (strings_Join xs [sep]) = sum_list (map length xs) + (length xs - 1)"
  by (induction xs "[sep]" rule: strings_Join.induct) auto

lemma json_need_length: "json_need j \<le> 2 * length (json_print j) + 1"
proof (induction j)
  case (JArr xs)
  then have "sum_list (map (\<lambda>x. Suc (json_need x)) xs) \<le> sum_list (map (\<lambda>x. 2 * length (json_print x) + 2) xs)"
    by (intro sum_list_mono) auto
  moreover have "sum_list (map (\<lambda>x. 2 * length (json_print x) + 2) ys) = 2 * sum_list (map (length \<circ> json_print) ys) + 2 * length ys" for ys
    by (induction ys) auto
  ultimately show ?case by (auto simp: length_strings_Join)
next
  case (JObj kvs)
  then have "json_need v \<le> 2 * length (json_print v) + 1" if "(k, v) \<in> set kvs" for k v
    using that by (auto intro: snds.intros)
  then have "sum_list (map (\<lambda>(k, v). Suc (json_need v)) kvs) \<le> sum_list (map (\<lambda>(k, v). 2 * length (json_print v) + 2) kvs)"
    by (intro sum_list_mono) (auto split: prod.split)
  also have "\<dots> \<le> sum_list (map (\<lambda>kv. 2 * length ((\<lambda>(k, v). json_quote k @ '':'' @ json_print v) kv)) kvs)"
    by (intro sum_list_mono) (auto simp: json_quote_def)
  finally show ?case by (auto simp: length_strings_Join sum_list_const_mult o_def)
qed simp_all

theorem json_parse_print: "plain_json j \<Longrightarrow> json_parse (json_print j) = Some j"
  using parse_value_print [of j "json_fuel (json_print j)" "[]"] json_need_length [of j]
  by (simp add: json_parse_def json_fuel_def json_ws_def ends_value_def)

lemma json_decode_first_print:
  assumes "plain_json j" and "ends_value r"
  shows "json_decode_first (json_print j @ r) = Some j"
  using parse_value_print [OF assms(1) _ assms(2), of "json_fuel (json_print j @ r)"] json_need_length [of j]
  by (simp add: json_decode_first_def json_fuel_def)

end
