(* ===== verification/Target.thy ===== *)
theory Target
  imports Utils Errgroup Go_Json
begin

text \<open>
  The target directory (src/pkg/cli/target.go): the version file, the versions given on the command line,
  and the copies of kernel, initrd and root file system and the data disk that \<open>handle\<close> brings up to date.
  The goroutines of the copies run while the loop of \<open>handle\<close> goes on; a schedule says when.
\<close>

section \<open>versions.json\<close>

record versionsJSON =
  Kernel :: string
  Initrd :: string
  Rootfs :: string
  Data :: string
  vjpath :: string
  needUpdateJSON :: bool

definition versions_get :: "string \<Rightarrow> versionsJSON \<Rightarrow> string" where
  "versions_get key v =
     (if key = ''kernel'' then Kernel v else if key = ''initrd'' then Initrd v
      else if key = ''rootfs'' then Rootfs v else if key = ''data'' then Data v else [])"

text \<open>\<open>set\<close>: with any other key the nil pointer \<open>vK\<close> is dereferenced, a panic (\<open>None\<close>).\<close>

definition versions_set :: "string \<Rightarrow> string \<Rightarrow> versionsJSON \<Rightarrow> versionsJSON option" where
  "versions_set key val v =
     (let put = (\<lambda>old v'. Some (if old \<noteq> val then v'\<lparr>needUpdateJSON := True\<rparr> else v))
      in if key = ''kernel'' then put (Kernel v) (v\<lparr>Kernel := val\<rparr>)
         else if key = ''initrd'' then put (Initrd v) (v\<lparr>Initrd := val\<rparr>)
         else if key = ''rootfs'' then put (Rootfs v) (v\<lparr>Rootfs := val\<rparr>)
         else if key = ''data'' then put (Data v) (v\<lparr>Data := val\<rparr>)
         else None)"

text \<open>The JSON of the struct: its four exported fields, in order.\<close>

definition versions_json :: "versionsJSON \<Rightarrow> json" where
  "versions_json v =
     JObj [(''kernel'', JStr (Kernel v)), (''initrd'', JStr (Initrd v)),
           (''rootfs'', JStr (Rootfs v)), (''data'', JStr (Data v))]"

fun versions_put :: "string \<Rightarrow> json \<Rightarrow> versionsJSON \<Rightarrow> versionsJSON option" where
  "versions_put key (JStr s) v =
     (if key = ''kernel'' then Some (v\<lparr>Kernel := s\<rparr>) else if key = ''initrd'' then Some (v\<lparr>Initrd := s\<rparr>)
      else if key = ''rootfs'' then Some (v\<lparr>Rootfs := s\<rparr>) else if key = ''data'' then Some (v\<lparr>Data := s\<rparr>)
      else None)"
| "versions_put key _ v = None"

definition versions_unmarshal :: "string \<Rightarrow> versionsJSON \<Rightarrow> goerr option \<times> versionsJSON" where
  "versions_unmarshal s v =
     decode_struct [''kernel'', ''initrd'', ''rootfs'', ''data''] versions_put (json_parse s) v"

text \<open>\<open>read\<close>: a file that cannot be read or parsed is removed; fields decoded before a type error stay.\<close>

definition versions_read ::
  "versionsJSON \<Rightarrow> 'a hostfs_scheme \<Rightarrow> goerr option \<times> versionsJSON \<times> 'a hostfs_scheme" where
  "versions_read v h =
     (case os_ReadFile (vjpath v) h of
        Inl _ \<Rightarrow> (case os_RemoveAll (vjpath v) h of (e, h') \<Rightarrow> (e, v, h'))
      | Inr d \<Rightarrow>
          (case versions_unmarshal d v of
             (Some _, v') \<Rightarrow> (case os_RemoveAll (vjpath v) h of (e, h') \<Rightarrow> (e, v', h'))
           | (None, v') \<Rightarrow> (None, v', h)))"

definition saveToDisk :: "versionsJSON \<Rightarrow> 'a hostfs_scheme \<Rightarrow> goerr option \<times> 'a hostfs_scheme" where
  "saveToDisk v h =
     (if \<not> needUpdateJSON v then (None, h)
      else os_WriteFile (vjpath v) (json_print (versions_json v)) h)"

section \<open>The versions of the command line\<close>

definition version_keys :: "string list" where
  "version_keys = [''kernel'', ''initrd'', ''rootfs'', ''data'']"

definition versionsParams0 :: "string \<Rightarrow> string option" where
  "versionsParams0 k = (if k \<in> set version_keys then Some [] else None)"

definition parse_item :: "string \<Rightarrow> (string \<Rightarrow> string option) \<Rightarrow> string \<Rightarrow> string option" where
  "parse_item val ps =
     (case strings_Split (strings_TrimSpace val) (CHR ''='') of
        [k, v] \<Rightarrow>
          (let key = strings_TrimSpace k
           in if ps key = None then ps else ps(key := Some (strings_TrimSpace v)))
      | _ \<Rightarrow> ps)"

text \<open>
  \<open>parseVersions\<close>: \<open>order\<close> is the order in which the range over the map visits the keys, which Go leaves
  open; the error names the first key without a version.
\<close>

definition parseVersions ::
  "string list \<Rightarrow> string \<Rightarrow> (string \<Rightarrow> string option) \<Rightarrow> goerr option \<times> (string \<Rightarrow> string option)" where
  "parseVersions order versions ps =
     (let ps' = fold parse_item (strings_Split versions (CHR '','')) ps
      in (map_option (\<lambda>name. Msg (''need '' @ name @ '' in versions'')) (find (\<lambda>k. ps' k = Some []) order), ps'))"

definition newVersionsJSON ::
  "string list \<Rightarrow> string \<Rightarrow> string \<Rightarrow> (string \<Rightarrow> string option) \<Rightarrow> 'a hostfs_scheme \<Rightarrow>
     versionsJSON res \<times> (string \<Rightarrow> string option) \<times> 'a hostfs_scheme" where
  "newVersionsJSON order versions p ps h =
     (let v = \<lparr>Kernel = [], Initrd = [], Rootfs = [], Data = [], vjpath = p, needUpdateJSON = False\<rparr>
      in case parseVersions order versions ps of
           (Some e, ps') \<Rightarrow> (Inl e, ps', h)
         | (None, ps') \<Rightarrow>
             (case versions_read v h of
                (Some e, _, h') \<Rightarrow> (Inl e, ps', h')
              | (None, v', h') \<Rightarrow> (Inr v', ps', h')))"

section \<open>The target\<close>

record srcPath =
  skey :: string
  spath :: string

record targetContext =
  targetPath :: string
  srcPaths :: "srcPath list"
  tversions :: versionsJSON

definition newTarget ::
  "string list \<Rightarrow> string \<Rightarrow> string \<Rightarrow> string \<Rightarrow> string \<Rightarrow> string \<Rightarrow> string \<Rightarrow> string \<Rightarrow>
     (string \<Rightarrow> string option) \<Rightarrow> 'a hostfs_scheme \<Rightarrow> targetContext res \<times> (string \<Rightarrow> string option) \<times> 'a hostfs_scheme" where
  "newTarget order versions tpath kernelPath initrdPath rootfsPath dataPath versionsPath ps h =
     (case newVersionsJSON order versions versionsPath ps h of
        (Inl e, ps', h') \<Rightarrow> (Inl e, ps', h')
      | (Inr v, ps', h') \<Rightarrow>
          (Inr \<lparr>targetPath = tpath,
                srcPaths = [\<lparr>skey = ''kernel'', spath = kernelPath\<rparr>, \<lparr>skey = ''initrd'', spath = initrdPath\<rparr>,
                            \<lparr>skey = ''rootfs'', spath = rootfsPath\<rparr>, \<lparr>skey = ''data'', spath = dataPath\<rparr>],
                tversions = v\<rparr>, ps', h'))"

definition distPath :: "string \<Rightarrow> srcPath \<Rightarrow> string" where
  "distPath tp src = path_Join [tp, filepath_Base (spath src)]"

definition data_size :: nat where
  "data_size = 8 * 1024 * 1024 * 1024 * 1024"

text \<open>The function \<open>copyOrCreate\<close> hands to the group.\<close>

definition copy_job :: "string res \<Rightarrow> string \<Rightarrow> srcPath \<Rightarrow> hostfs \<Rightarrow> goerr option \<times> hostfs" where
  "copy_job wd tp src h =
     (if skey src = ''data'' then
        (case os_RemoveAll (distPath tp src) h of
           (Some e, h1) \<Rightarrow> (Some e, h1)
         | (None, h1) \<Rightarrow> CreateSparseFile (distPath tp src) data_size h1)
      else utils_Copy wd (spath src) (distPath tp src) h)"

text \<open>The state of \<open>handle\<close>: what the loop has still to visit, and the goroutines that have not run yet.\<close>

record hstate =
  todo :: "srcPath list"
  pending :: "srcPath list"
  hgroup :: group
  hver :: versionsJSON
  hhost :: hostfs
  crashed :: bool

definition param_of :: "(string \<Rightarrow> string option) \<Rightarrow> string \<Rightarrow> string" where
  "param_of ps k = (case ps k of None \<Rightarrow> [] | Some v \<Rightarrow> v)"

definition copyOrCreate :: "(string \<Rightarrow> string option) \<Rightarrow> srcPath \<Rightarrow> hstate \<Rightarrow> hstate" where
  "copyOrCreate ps src s =
     (case versions_set (skey src) (param_of ps (skey src)) (hver s) of
        None \<Rightarrow> s\<lparr>crashed := True, todo := []\<rparr>
      | Some v \<Rightarrow> s\<lparr>hver := v, hgroup := group_Go (hgroup s), pending := pending s @ [src]\<rparr>)"

text \<open>One round of the loop of \<open>handle\<close>.\<close>

definition handle_round :: "string \<Rightarrow> (string \<Rightarrow> string option) \<Rightarrow> hstate \<Rightarrow> hstate" where
  "handle_round tp ps s =
     (case todo s of
        [] \<Rightarrow> s
      | src # rest \<Rightarrow>
          (let s' = s\<lparr>todo := rest\<rparr>;
               exists = (case PathExists (distPath tp src) (hhost s) of Inr b \<Rightarrow> b | Inl _ \<Rightarrow> False)
           in if \<not> exists then copyOrCreate ps src s'
              else if versions_get (skey src) (hver s) \<noteq> param_of ps (skey src) then copyOrCreate ps src s'
              else s'))"

definition run_pending :: "string res \<Rightarrow> string \<Rightarrow> nat \<Rightarrow> hstate \<Rightarrow> hstate" where
  "run_pending wd tp k s =
     (if k < length (pending s) then
        (case run_job (copy_job wd tp) (pending s ! k) (hgroup s, hhost s) of
           (g, h) \<Rightarrow> s\<lparr>hgroup := g, hhost := h, pending := take k (pending s) @ drop (Suc k) (pending s)\<rparr>)
      else s)"

text \<open>A choice of the scheduler: 0 lets the loop do a round, \<open>Suc k\<close> runs the \<open>k\<close>-th waiting goroutine.\<close>

fun target_step :: "string res \<Rightarrow> string \<Rightarrow> (string \<Rightarrow> string option) \<Rightarrow> nat \<Rightarrow> hstate \<Rightarrow> hstate" where
  "target_step wd tp ps 0 s = handle_round tp ps s"
| "target_step wd tp ps (Suc k) s = run_pending wd tp k s"

definition handle_init :: "targetContext \<Rightarrow> hostfs \<Rightarrow> hstate" where
  "handle_init t h =
     \<lparr>todo = srcPaths t, pending = [], hgroup = zero_group, hver = tversions t, hhost = h, crashed = False\<rparr>"

definition full_schedule :: "nat \<Rightarrow> nat list \<Rightarrow> nat list" where
  "full_schedule n sched = sched @ replicate n 0 @ replicate n 1"

definition handle ::
  "nat list \<Rightarrow> string res \<Rightarrow> (string \<Rightarrow> string option) \<Rightarrow> targetContext \<Rightarrow> hostfs \<Rightarrow> goerr option outcome \<times> versionsJSON \<times> hostfs" where
  "handle sched wd ps t h =
     (let s = fold (target_step wd (targetPath t) ps) (full_schedule (length (srcPaths t)) sched) (handle_init t h)
      in if crashed s then (Panic, hver s, hhost s)
         else case group_Wait (hgroup s) of
                None \<Rightarrow> (Panic, hver s, hhost s)
              | Some (Some e, _) \<Rightarrow> (Ret (Some e), hver s, hhost s)
              | Some (None, _) \<Rightarrow> (case saveToDisk (hver s) (hhost s) of (e, h') \<Rightarrow> (Ret e, hver s, h')))"

section \<open>The version file\<close>

lemma json_parse_versions: "json_parse (json_print (versions_json v)) = Some (versions_json v)"
  by (rule json_parse_print) (simp add: versions_json_def)

lemma versions_unmarshal_marshal:
  "versions_unmarshal (json_print (versions_json v)) w =
     (None, w\<lparr>Kernel := Kernel v, Initrd := Initrd v, Rootfs := Rootfs v, Data := Data v\<rparr>)"
  unfolding versions_unmarshal_def json_parse_versions
  by (simp add: versions_json_def decode_struct_def field_for_def)


lemma saveToDisk_other:
  assumes "fs_wf h" and "saveToDisk v h = (e, h')" and "p \<noteq> vjpath v"
  shows "content h' p = content h p"
proof (cases "needUpdateJSON v")
  case True
  with assms(2) have "h' = snd (os_WriteFile (vjpath v) (json_print (versions_json v)) h)" by (simp add: saveToDisk_def)
  with os_WriteFile_content_other [OF assms(1,3)] show ?thesis by simp
next
  case False
  with assms(2) show ?thesis by (simp add: saveToDisk_def)
qed

definition demo_versions :: versionsJSON where
  "demo_versions = \<lparr>Kernel = ''1.0'', Initrd = ''a<b'', Rootfs = [CHR 0x22], Data = ''d'', vjpath = ''/t/versions.json'',
     needUpdateJSON = True\<rparr>"


section \<open>The versions of the command line\<close>

text \<open>The binding an item of the list makes, if it makes one.\<close>

definition item_binding :: "string \<Rightarrow> (string \<times> string) option" where
  "item_binding val =
     (case strings_Split (strings_TrimSpace val) (CHR ''='') of
        [k, v] \<Rightarrow> Some (strings_TrimSpace k, strings_TrimSpace v)
      | _ \<Rightarrow> None)"

lemma parse_item_binding:
  "parse_item val ps = (case item_binding val of
      None \<Rightarrow> ps | Some (k, v) \<Rightarrow> if ps k = None then ps else ps(k := Some v))"
  by (auto simp: parse_item_def item_binding_def Let_def split: list.split)

text \<open>The last binding of a key among the items wins.\<close>

definition last_binding :: "string list \<Rightarrow> string \<Rightarrow> string option" where
  "last_binding items k = map_of (rev (List.map_filter item_binding items)) k"

lemma fold_parse_item:
  "fold parse_item items ps k =
     (case ps k of None \<Rightarrow> None
      | Some x \<Rightarrow> (case last_binding items k of None \<Rightarrow> Some x | Some v \<Rightarrow> Some v))"
proof (induction items arbitrary: ps)
  case (Cons i items)
  have "last_binding (i # items) k = (case last_binding items k of Some v \<Rightarrow> Some v
      | None \<Rightarrow> (case item_binding i of Some (k', v) \<Rightarrow> if k = k' then Some v else None | None \<Rightarrow> None))"
    by (auto simp: last_binding_def List.map_filter_def map_add_def split: option.split prod.split)
  then show ?case using Cons.IH [of "parse_item i ps"]
    by (auto simp: parse_item_binding split: option.split prod.split)
qed (simp add: last_binding_def List.map_filter_def split: option.split)

text \<open>
  C28: \<open>parseVersions\<close> succeeds exactly when each of the four keys has a version that is not empty; then
  the parameters of the four keys are the last ones given for them, and items of any other form and
  other keys have no effect.
\<close>

theorem parseVersions_correct:
  assumes "set order = set version_keys"
  shows "case parseVersions order versions versionsParams0 of (err, ps) \<Rightarrow>
    (err = None \<longleftrightarrow> (\<forall>k \<in> set version_keys. \<exists>v. last_binding (strings_Split versions (CHR '','')) k = Some v \<and> v \<noteq> [])) \<and>
    (err = None \<longrightarrow> (\<forall>k. ps k = (if k \<in> set version_keys then last_binding (strings_Split versions (CHR '','')) k else None)))"
proof -
  let ?items = "strings_Split versions (CHR '','')"
  define ps where "ps = fold parse_item ?items versionsParams0"
  have ps: "ps k = (if k \<in> set version_keys then Some (case last_binding ?items k of None \<Rightarrow> [] | Some v \<Rightarrow> v) else None)" for k
    unfolding ps_def fold_parse_item by (simp add: versionsParams0_def split: option.split)
  have nonempty: "(case b of None \<Rightarrow> [] | Some v \<Rightarrow> v) \<noteq> [] \<longleftrightarrow> (\<exists>v. b = Some v \<and> v \<noteq> [])" for b :: "string option"
    by (cases b) auto
  have "find (\<lambda>k. ps k = Some []) order = None \<longleftrightarrow>
      (\<forall>k \<in> set version_keys. \<exists>v. last_binding ?items k = Some v \<and> v \<noteq> [])"
    using assms nonempty by (auto simp: find_None_iff ps)
  moreover have "ps k = (if k \<in> set version_keys then last_binding ?items k else None)"
    if "\<forall>k \<in> set version_keys. \<exists>v. last_binding ?items k = Some v \<and> v \<noteq> []" for k
    using that ps [of k] by (auto split: option.splits)
  ultimately show ?thesis by (auto simp: parseVersions_def Let_def ps_def [symmetric])
qed

definition demo_flag :: string where
  "demo_flag = ''kernel=1, initrd = 2 ,zzz,rootfs=3,data=x,foo=5,data=4''"

theorem parseVersions_correct_witness:
  "case parseVersions version_keys demo_flag versionsParams0 of (err, ps) \<Rightarrow>
     err = None \<and> ps ''initrd'' = Some ''2'' \<and> ps ''data'' = Some ''4'' \<and> ps ''foo'' = None"
proof -
  have b: "list_all (\<lambda>k. last_binding (strings_Split demo_flag (CHR '','')) k \<noteq> None \<and>
      last_binding (strings_Split demo_flag (CHR '','')) k \<noteq> Some []) version_keys"
    "last_binding (strings_Split demo_flag (CHR '','')) ''initrd'' = Some ''2''"
    "last_binding (strings_Split demo_flag (CHR '','')) ''data'' = Some ''4''"
    by code_simp+
  have k: "''initrd'' \<in> set version_keys" "''data'' \<in> set version_keys" "''foo'' \<notin> set version_keys"
    by (simp_all add: version_keys_def)
  show ?thesis
    using parseVersions_correct [of version_keys demo_flag] b k by (fastforce simp: list_all_iff)
qed

section \<open>The jobs\<close>

text \<open>The host has changed at the paths \<open>P\<close> only, and is still well-formed.\<close>

definition only_at :: "string set \<Rightarrow> 'a hostfs_scheme \<Rightarrow> 'a hostfs_scheme \<Rightarrow> bool" where
  "only_at P h h' =
     (fs_wf h' \<and> refuse h' = refuse h \<and> (\<forall>q. q \<notin> P \<longrightarrow> names h' q = names h q \<and> content h' q = content h q))"

lemma only_at_refl: "fs_wf h \<Longrightarrow> only_at P h h"
  by (simp add: only_at_def)

lemma only_at_trans: "only_at P h h1 \<Longrightarrow> only_at P h1 h2 \<Longrightarrow> only_at P h h2"
  by (simp add: only_at_def)

lemma only_at_open:
  assumes "fs_wf h" and "open_create t p h = (r, h')" and "p \<in> P"
  shows "only_at P h h'"
proof (cases r)
  case (Inl e)
  with assms show ?thesis using open_create_err only_at_refl by metis
next
  case (Inr i)
  note o = open_create_ok [OF assms(2) [unfolded Inr]]
  show ?thesis
    using open_create_wf [OF assms(1,2)] open_create_content_other [OF assms(1,2)] o(1,7) assms(3)
    by (auto simp: only_at_def)
qed

lemma only_at_write:
  assumes "fs_wf h" and "names h p = Some (File i)" and "p \<in> P"
  shows "only_at P h (snd (fh_Write s i off d h))" and "only_at P h (snd (fh_Truncate s i n h))"
proof -
  have ne: "q \<noteq> p" if "q \<notin> P" for q using that assms(3) by auto
  show "only_at P h (snd (fh_Write s i off d h))"
    using fh_Write_wf [OF assms(1)] content_fh_Write [OF assms(1,2) ne] by (simp add: only_at_def host_simps)
  show "only_at P h (snd (fh_Truncate s i n h))"
    using fh_Truncate_wf [OF assms(1)] content_fh_Truncate [OF assms(1,2) ne] by (simp add: only_at_def host_simps)
qed

lemma only_at_remove:
  assumes "fs_wf h"
  shows "only_at {q. q = p \<or> under p q} h (snd (os_RemoveAll p h))"
proof -
  have "fs_wf (snd (os_RemoveAll p h))"
    using assms unfolding os_RemoveAll_def fs_wf_def by (auto split: option.splits)
  then show ?thesis
    by (auto simp: only_at_def os_RemoveAll_def content_def split: option.splits entry.split)
qed

lemma only_at_mono: "only_at P h h' \<Longrightarrow> P \<subseteq> Q \<Longrightarrow> only_at Q h h'"
  by (auto simp: only_at_def)

lemma utils_Copy_only:
  assumes "fs_wf h" and "utils_Copy wd src dst h = (e, h')"
  shows "only_at {dst} h h'"
proof -
  have "h' = h \<or> (\<exists>r h1. open_create True dst h = (r, h1) \<and>
      (h' = h1 \<or> (\<exists>j d. r = Inr j \<and> h' = snd (fh_Write dst j 0 d h1))))"
    using assms(2)
    by (auto simp: utils_Copy_def Let_def split: sum.splits entry.splits option.splits prod.splits)
      (metis snd_conv)+
  then consider "h' = h" | r h1 where "open_create True dst h = (r, h1)" "h' = h1"
    | j d h1 where "open_create True dst h = (Inr j, h1)" "h' = snd (fh_Write dst j 0 d h1)"
    by blast
  then show ?thesis
  proof cases
    case 3
    have "only_at {dst} h h1" by (rule only_at_open [OF assms(1) 3(1)]) simp
    moreover have "only_at {dst} h1 h'"
      unfolding 3(2)
      by (rule only_at_write(1) [of h1 dst]) (use open_create_wf [OF assms(1) 3(1)] open_create_ok(1) [OF 3(1)] in auto)
    ultimately show ?thesis by (rule only_at_trans)
  qed (use only_at_refl [OF assms(1)] only_at_open [OF assms(1)] in auto)
qed

lemma CreateSparseFile_only:
  assumes "fs_wf h" and "CreateSparseFile p sz h = (e, h')"
  shows "only_at {p} h h'"
proof -
  obtain r h1 where o: "open_create True p h = (r, h1)" by (rule prod.exhaust)
  have 1: "only_at {p} h h1" by (rule only_at_open [OF assms(1) o]) simp
  show ?thesis
  proof (cases r)
    case (Inl x)
    with assms(2) o 1 show ?thesis by (simp add: CreateSparseFile_def)
  next
    case (Inr i)
    let ?h2 = "snd (fh_Truncate p i sz h1)"
    have "only_at {p} h1 ?h2"
      by (rule only_at_write(2) [of h1 p]) (use open_create_wf [OF assms(1) o] open_create_ok(1) [OF o [unfolded Inr]] in auto)
    with 1 have 2: "only_at {p} h ?h2" by (rule only_at_trans)
    have "h' = ?h2 \<or> (\<exists>c. h' = spawn_cmd c ?h2)"
      using assms(2) o Inr
      by (auto simp: CreateSparseFile_def split: prod.splits option.splits)
    with 2 show ?thesis by (auto simp: only_at_def host_simps)
  qed
qed

definition job_touches :: "string \<Rightarrow> srcPath \<Rightarrow> string set" where
  "job_touches tp src =
     (if skey src = ''data'' then {q. q = distPath tp src \<or> under (distPath tp src) q} else {distPath tp src})"

lemma copy_job_only:
  assumes "fs_wf h"
  shows "only_at (job_touches tp src) h (snd (copy_job wd tp src h))"
proof (cases "skey src = ''data''")
  case True
  obtain r h1 where rm: "os_RemoveAll (distPath tp src) h = (r, h1)" by (rule prod.exhaust)
  have 1: "only_at (job_touches tp src) h h1"
    using only_at_remove [OF assms, of "distPath tp src"] rm True by (simp add: job_touches_def)
  have "only_at {distPath tp src} h1 (snd (CreateSparseFile (distPath tp src) data_size h1))"
    by (rule CreateSparseFile_only [of _ _ _ "fst (CreateSparseFile (distPath tp src) data_size h1)"]) (use 1 in \<open>auto simp: only_at_def\<close>)
  then have "only_at (job_touches tp src) h1 (snd (CreateSparseFile (distPath tp src) data_size h1))"
    by (rule only_at_mono) (simp add: job_touches_def True)
  with 1 show ?thesis using rm True only_at_trans by (cases r) (auto simp: copy_job_def)
next
  case False
  then show ?thesis
    using utils_Copy_only [OF assms, of wd "spath src" "distPath tp src"]
    by (cases "utils_Copy wd (spath src) (distPath tp src) h") (simp add: copy_job_def job_touches_def)
qed

definition path_view :: "'a hostfs_scheme \<Rightarrow> string \<Rightarrow> entry option \<times> rfile option" where
  "path_view h p = (names h p, content h p)"

definition job_good :: "(sysop \<Rightarrow> string \<Rightarrow> errno option) \<Rightarrow> hostfs \<Rightarrow> bool" where
  "job_good R h = (fs_wf h \<and> refuse h = R)"

definition job_reads :: "string res \<Rightarrow> srcPath \<Rightarrow> string set" where
  "job_reads wd src =
     (if skey src = ''data'' then {} else case filepath_Abs wd (spath src) of Inl _ \<Rightarrow> {} | Inr a \<Rightarrow> {a})"

text \<open>
  What a job that succeeded has made: the data disk is an empty sparse file, and every other target holds
  the bytes of its source (a copy onto itself apart).
\<close>

definition made :: "string res \<Rightarrow> string \<Rightarrow> srcPath \<Rightarrow> (string \<Rightarrow> rfile option) \<Rightarrow> rfile option \<Rightarrow> bool" where
  "made wd tp src before after =
     (if skey src = ''data'' then after = Some \<lparr>fdata = [], fsize = data_size\<rparr>
      else case filepath_Abs wd (spath src) of
             Inl _ \<Rightarrow> False
           | Inr a \<Rightarrow>
               a = distPath tp src \<or>
               (case before a of None \<Rightarrow> False | Some f \<Rightarrow> after = Some (file_of (file_bytes f))))"

definition job_wants ::
  "string res \<Rightarrow> string \<Rightarrow> srcPath \<Rightarrow> (string \<Rightarrow> entry option \<times> rfile option) \<Rightarrow> string \<Rightarrow> entry option \<times> rfile option \<Rightarrow> bool" where
  "job_wants wd tp src v p x = (p = distPath tp src \<longrightarrow> made wd tp src (snd \<circ> v) (snd x))"

lemma copy_job_made:
  assumes "fs_wf h" and "copy_job wd tp src h = (None, h')"
  shows "made wd tp src (content h) (content h' (distPath tp src))"
proof (cases "skey src = ''data''")
  case True
  then obtain h1 where rm: "os_RemoveAll (distPath tp src) h = (None, h1)"
    and c: "CreateSparseFile (distPath tp src) data_size h1 = (None, h')"
    using assms(2) by (auto simp: copy_job_def split: prod.splits option.splits)
  have "fs_wf h1" using only_at_remove [OF assms(1), of "distPath tp src"] rm by (simp add: only_at_def)
  then show ?thesis using CreateSparseFile_ok(1) [OF _ c] True by (simp add: made_def)
next
  case False
  then have c: "utils_Copy wd (spath src) (distPath tp src) h = (None, h')"
    using assms(2) by (simp add: copy_job_def)
  then obtain a i where a: "filepath_Abs wd (spath src) = Inr a" "names h a = Some (File i)"
    by (elim utils_Copy_okE)
  then have "content h a = Some (files h i)" by (simp add: content_def)
  then show ?thesis
    using copy_correct(1) [OF assms(1) a(1) _ _ c] a False by (auto simp: made_def)
qed

interpretation copy_jobs: independent_jobs "copy_job wd tp" "job_good R" path_view "job_touches tp" "job_reads wd" "job_wants wd tp"
  for wd tp R
proof
  show "job_good R (snd (copy_job wd tp j h))" if "job_good R h" for h j
    using that copy_job_only [of h tp j wd] by (simp add: job_good_def only_at_def)
  show "path_view (snd (copy_job wd tp j h)) p = path_view h p" if "job_good R h" "p \<notin> job_touches tp j" for h p j
    using that copy_job_only [of h tp j wd] by (simp add: job_good_def only_at_def path_view_def)
  show "job_wants wd tp j (path_view h) p (path_view h' p)"
    if "job_good R h" "copy_job wd tp j h = (None, h')" "p \<in> job_touches tp j" for h j h' p
    using that copy_job_made [of h wd tp j h'] by (auto simp: job_good_def job_wants_def path_view_def o_def)
  show "job_wants wd tp j v p x"
    if "\<And>q. q \<in> job_reads wd j \<Longrightarrow> u q = v q" "job_wants wd tp j u p x" for j u v p x
    using that by (auto simp: job_wants_def made_def job_reads_def split: sum.splits if_splits)
qed

section \<open>The loop and its goroutines\<close>

text \<open>
  The sources of a target do not get in each other's way: the keys are known and differ, no target is
  (or, for the data disk, lies below) the target of another or a source, and the version file is apart.
\<close>

definition in_touch :: "string \<Rightarrow> srcPath \<Rightarrow> string \<Rightarrow> bool" where
  "in_touch tp src p = (p = distPath tp src \<or> skey src = ''data'' \<and> under (distPath tp src) p)"

definition target_sep :: "string res \<Rightarrow> targetContext \<Rightarrow> bool" where
  "target_sep wd t =
     (distinct (map skey (srcPaths t)) \<and>
      list_all (\<lambda>i. skey i \<in> set version_keys \<and> \<not> in_touch (targetPath t) i (vjpath (tversions t)) \<and>
        list_all (\<lambda>j. (i \<noteq> j \<longrightarrow> \<not> in_touch (targetPath t) i (distPath (targetPath t) j)) \<and>
          (skey j = ''data'' \<or>
           (case filepath_Abs wd (spath j) of Inl _ \<Rightarrow> True | Inr a \<Rightarrow> \<not> in_touch (targetPath t) i a))) (srcPaths t)) (srcPaths t))"

lemma job_touches_iff: "p \<in> job_touches tp src \<longleftrightarrow> in_touch tp src p"
  by (simp add: job_touches_def in_touch_def)

lemma in_touch_dist: "in_touch tp src (distPath tp src)"
  by (simp add: in_touch_def)

lemma target_sep_cong:
  "srcPaths t' = srcPaths t \<Longrightarrow> targetPath t' = targetPath t \<Longrightarrow> vjpath (tversions t') = vjpath (tversions t) \<Longrightarrow>
     target_sep wd t' = target_sep wd t"
  by (simp only: target_sep_def)

lemma target_sepD:
  assumes "target_sep wd t" and "i \<in> set (srcPaths t)" and "j \<in> set (srcPaths t)"
  shows "i \<noteq> j \<Longrightarrow> distPath (targetPath t) i \<notin> job_touches (targetPath t) j"
    and "i \<noteq> j \<Longrightarrow> job_touches (targetPath t) i \<inter> job_touches (targetPath t) j = {}"
    and "job_touches (targetPath t) i \<inter> job_reads wd j = {}"
    and "skey i = skey j \<longleftrightarrow> i = j" and "skey i \<in> set version_keys"
    and "vjpath (tversions t) \<notin> job_touches (targetPath t) i" and "distinct (srcPaths t)"
proof -
  have d: "distinct (map skey (srcPaths t))"
    and s: "\<And>i j. i \<in> set (srcPaths t) \<Longrightarrow> j \<in> set (srcPaths t) \<Longrightarrow> i \<noteq> j \<Longrightarrow> \<not> in_touch (targetPath t) i (distPath (targetPath t) j)"
    and r: "\<And>i j a. i \<in> set (srcPaths t) \<Longrightarrow> j \<in> set (srcPaths t) \<Longrightarrow> skey j \<noteq> ''data'' \<Longrightarrow> filepath_Abs wd (spath j) = Inr a \<Longrightarrow> \<not> in_touch (targetPath t) i a"
    and k: "\<And>i. i \<in> set (srcPaths t) \<Longrightarrow> skey i \<in> set version_keys \<and> \<not> in_touch (targetPath t) i (vjpath (tversions t))"
    using assms(1) by (fastforce simp: target_sep_def list_all_iff)+
  show eq: "skey i = skey j \<longleftrightarrow> i = j"
    using d assms(2,3) by (auto simp: distinct_map inj_on_def)
  show "distinct (srcPaths t)" using d by (simp add: distinct_map)
  show "skey i \<in> set version_keys" "vjpath (tversions t) \<notin> job_touches (targetPath t) i"
    using k assms(2) by (simp_all add: job_touches_iff)
  show "distPath (targetPath t) i \<notin> job_touches (targetPath t) j" if "i \<noteq> j"
    using s [OF assms(3,2)] that by (simp add: job_touches_iff)
  show "job_touches (targetPath t) i \<inter> job_reads wd j = {}"
    using r [OF assms(2,3)] by (auto simp: job_touches_iff job_reads_def split: sum.splits)
  show "job_touches (targetPath t) i \<inter> job_touches (targetPath t) j = {}" if "i \<noteq> j"
    using s [OF assms(2,3)] s [OF assms(3,2)] that eq by (auto simp: job_touches_iff in_touch_def)
qed

text \<open>Which sources \<open>handle\<close> brings up to date: those without a target or with another version.\<close>

definition needs :: "(string \<Rightarrow> string option) \<Rightarrow> targetContext \<Rightarrow> hostfs \<Rightarrow> srcPath \<Rightarrow> bool" where
  "needs ps t h src =
     (PathExists (distPath (targetPath t) src) h \<noteq> Inr True \<or>
      versions_get (skey src) (tversions t) \<noteq> param_of ps (skey src))"

definition versions_put_field :: "string \<Rightarrow> string \<Rightarrow> versionsJSON \<Rightarrow> versionsJSON" where
  "versions_put_field key val v =
     (if key = ''kernel'' then v\<lparr>Kernel := val\<rparr> else if key = ''initrd'' then v\<lparr>Initrd := val\<rparr>
      else if key = ''rootfs'' then v\<lparr>Rootfs := val\<rparr> else v\<lparr>Data := val\<rparr>)"

lemma version_keys_cases:
  assumes "key \<in> set version_keys"
  obtains "key = ''kernel''" | "key = ''initrd''" | "key = ''rootfs''" | "key = ''data''"
  using assms by (auto simp: version_keys_def)

lemma versions_set_eq:
  "versions_set key val v =
     (if key \<in> set version_keys
      then Some (if versions_get key v = val then v else (versions_put_field key val v)\<lparr>needUpdateJSON := True\<rparr>)
      else None)"
proof (cases "key \<in> set version_keys")
  case True
  then show ?thesis
    by (rule version_keys_cases) (simp_all add: versions_set_def versions_get_def versions_put_field_def version_keys_def)
next
  case False
  then show ?thesis by (simp add: versions_set_def version_keys_def)
qed

lemma versions_get_put_field:
  assumes "key \<in> set version_keys"
  shows "versions_get k ((versions_put_field key val v)\<lparr>needUpdateJSON := b\<rparr>) = (if k = key then val else versions_get k v)"
    and "vjpath (versions_put_field key val v) = vjpath v"
  using assms by (rule version_keys_cases; simp add: versions_get_def versions_put_field_def)+

lemma versions_set_get:
  assumes "versions_set key val v = Some v'"
  shows "versions_get key v' = val" and "k \<noteq> key \<Longrightarrow> versions_get k v' = versions_get k v"
    and "vjpath v' = vjpath v" and "needUpdateJSON v' \<longleftrightarrow> needUpdateJSON v \<or> versions_get key v \<noteq> val"
proof -
  have key: "key \<in> set version_keys" using assms by (simp add: versions_set_eq split: if_splits)
  then have "v' = (if versions_get key v = val then v else (versions_put_field key val v)\<lparr>needUpdateJSON := True\<rparr>)"
    using assms by (simp add: versions_set_eq)
  then show "versions_get key v' = val" "k \<noteq> key \<Longrightarrow> versions_get k v' = versions_get k v"
    "vjpath v' = vjpath v" "needUpdateJSON v' \<longleftrightarrow> needUpdateJSON v \<or> versions_get key v \<noteq> val"
    using versions_get_put_field [OF key] by simp_all
qed

lemma versions_set_known: "key \<in> set version_keys \<Longrightarrow> \<exists>v'. versions_set key val v = Some v'"
  by (simp add: versions_set_eq)

lemma PathExists_view:
  "path_view h p = path_view h' p \<Longrightarrow> refuse h = refuse h' \<Longrightarrow> PathExists p h = PathExists p h'"
  by (simp add: path_view_def PathExists_def os_Stat_def split: option.split)

text \<open>
  The invariant: \<open>visited\<close> are the sources the loop has passed, \<open>jobs\<close> those that have run, in order.
\<close>

definition handle_ran ::
  "string res \<Rightarrow> (string \<Rightarrow> string option) \<Rightarrow> targetContext \<Rightarrow> hostfs \<Rightarrow> srcPath list \<Rightarrow> srcPath list \<Rightarrow> hstate \<Rightarrow> bool" where
  "handle_ran wd ps t h visited jobs s =
     (srcPaths t = visited @ todo s \<and>
      hhost s = snd (run_jobs (copy_job wd (targetPath t)) jobs (zero_group, h)) \<and>
      gerr (hgroup s) = gerr (fst (run_jobs (copy_job wd (targetPath t)) jobs (zero_group, h))) \<and>
      running (hgroup s) = length (pending s) \<and>
      mset jobs + mset (pending s) = mset (filter (needs ps t h) visited))"

definition handle_vers ::
  "(string \<Rightarrow> string option) \<Rightarrow> targetContext \<Rightarrow> hostfs \<Rightarrow> srcPath list \<Rightarrow> versionsJSON \<Rightarrow> bool" where
  "handle_vers ps t h visited v =
     (vjpath v = vjpath (tversions t) \<and>
      (\<forall>src \<in> set (srcPaths t). versions_get (skey src) v =
         (if src \<in> set visited \<and> needs ps t h src then param_of ps (skey src) else versions_get (skey src) (tversions t))) \<and>
      (needUpdateJSON v \<longleftrightarrow> needUpdateJSON (tversions t) \<or>
         (\<exists>src \<in> set visited. needs ps t h src \<and> versions_get (skey src) (tversions t) \<noteq> param_of ps (skey src))))"

definition handle_inv :: "string res \<Rightarrow> (string \<Rightarrow> string option) \<Rightarrow> targetContext \<Rightarrow> hostfs \<Rightarrow> hstate \<Rightarrow> bool" where
  "handle_inv wd ps t h s =
     (\<not> crashed s \<and> (\<exists>visited jobs. handle_ran wd ps t h visited jobs s \<and> handle_vers ps t h visited (hver s)))"

text \<open>The paths of a source that has not been started are as they were.\<close>

lemma run_jobs_view:
  assumes "fs_wf h" and "\<And>j. j \<in> set jobs \<Longrightarrow> p \<notin> job_touches tp j"
  shows "path_view (snd (run_jobs (copy_job wd tp) jobs (g, h))) p = path_view h p"
  by (rule copy_jobs.run_jobs_frame [of "refuse h"]) (use assms in \<open>auto simp: job_good_def\<close>)

lemma run_jobs_wf:
  assumes "fs_wf h"
  shows "fs_wf (snd (run_jobs (copy_job wd tp) jobs (g, h)))"
    and "refuse (snd (run_jobs (copy_job wd tp) jobs (g, h))) = refuse h"
  using copy_jobs.run_jobs_good [of "refuse h" h wd tp jobs g] assms by (simp_all add: job_good_def)

lemma handle_ran_jobs: "handle_ran wd ps t h visited jobs s \<Longrightarrow> set jobs \<subseteq> set visited \<and> set (pending s) \<subseteq> set visited"
  unfolding handle_ran_def
  by (metis (no_types, lifting) Un_subset_iff filter_is_subset set_mset_mset set_mset_union)

lemma handle_inv_init: "handle_inv wd ps t h (handle_init t h)"
proof -
  have "handle_ran wd ps t h [] [] (handle_init t h)"
    by (simp add: handle_ran_def handle_init_def zero_group_def)
  moreover have "handle_vers ps t h [] (hver (handle_init t h))"
    by (simp add: handle_vers_def handle_init_def)
  ultimately show ?thesis unfolding handle_inv_def by (auto simp: handle_init_def)
qed

lemma handle_round_needs:
  assumes "target_sep wd t" and "fs_wf h" and r: "handle_ran wd ps t h visited jobs s"
    and v: "handle_vers ps t h visited (hver s)" and todo: "todo s = src # rest"
  shows "handle_round (targetPath t) ps s =
    (if needs ps t h src then copyOrCreate ps src (s\<lparr>todo := rest\<rparr>) else s\<lparr>todo := rest\<rparr>)"
proof -
  have src: "src \<in> set (srcPaths t)" "src \<notin> set visited"
    using r todo target_sepD(7) [OF assms(1), of src src] by (auto simp: handle_ran_def)
  have "distPath (targetPath t) src \<notin> job_touches (targetPath t) j" if "j \<in> set jobs" for j
    using target_sepD(1) [OF assms(1) src(1), of j] handle_ran_jobs [OF r] src(2) that r
    by (auto simp: handle_ran_def)
  then have "path_view (hhost s) (distPath (targetPath t) src) = path_view h (distPath (targetPath t) src)"
    using run_jobs_view [OF assms(2), of jobs] r by (simp add: handle_ran_def)
  then have "PathExists (distPath (targetPath t) src) (hhost s) = PathExists (distPath (targetPath t) src) h"
    by (rule PathExists_view) (use run_jobs_wf [OF assms(2)] r in \<open>simp add: handle_ran_def\<close>)
  moreover have "versions_get (skey src) (hver s) = versions_get (skey src) (tversions t)"
    using v src by (simp add: handle_vers_def)
  ultimately show ?thesis
    using todo by (auto simp: handle_round_def needs_def Let_def split: sum.split)
qed

lemma handle_vers_set:
  assumes "target_sep wd t" and v: "handle_vers ps t h visited v" and src: "src \<in> set (srcPaths t)" "src \<notin> set visited"
    and "needs ps t h src" and put: "versions_set (skey src) (param_of ps (skey src)) v = Some v'"
  shows "handle_vers ps t h (visited @ [src]) v'"
proof -
  note g = versions_set_get [OF put]
  have "versions_get (skey src) v = versions_get (skey src) (tversions t)"
    using v src by (simp add: handle_vers_def)
  moreover have "versions_get (skey i) v' = versions_get (skey i) v" if "i \<in> set (srcPaths t)" "i \<noteq> src" for i
    using g(2) [of "skey i"] target_sepD(4) [OF assms(1) that(1) src(1)] that(2) by simp
  moreover have "versions_get (skey i) v' = (if i \<in> set (visited @ [src]) \<and> needs ps t h i
      then param_of ps (skey i) else versions_get (skey i) (tversions t))" if "i \<in> set (srcPaths t)" for i
  proof (cases "i = src")
    case True
    with g(1) assms(5) show ?thesis by simp
  next
    case False
    with calculation(2) [OF that False] v that show ?thesis by (simp add: handle_vers_def)
  qed
  moreover have "needUpdateJSON v' \<longleftrightarrow> needUpdateJSON (tversions t) \<or>
      (\<exists>i \<in> set (visited @ [src]). needs ps t h i \<and> versions_get (skey i) (tversions t) \<noteq> param_of ps (skey i))"
    using g(4) v assms(5) calculation(1) unfolding handle_vers_def by auto
  ultimately show ?thesis
    using v g(3) unfolding handle_vers_def by simp
qed

lemma handle_inv_round:
  assumes "target_sep wd t" and "fs_wf h" and "handle_inv wd ps t h s"
  shows "handle_inv wd ps t h (handle_round (targetPath t) ps s)"
proof (cases "todo s")
  case Nil
  then show ?thesis using assms(3) by (simp add: handle_round_def)
next
  case (Cons src rest)
  obtain visited jobs where r: "handle_ran wd ps t h visited jobs s" and v: "handle_vers ps t h visited (hver s)"
    and c: "\<not> crashed s" using assms(3) by (auto simp: handle_inv_def)
  have src: "src \<in> set (srcPaths t)" "src \<notin> set visited"
    using r Cons target_sepD(7) [OF assms(1), of src src] by (auto simp: handle_ran_def)
  note eq = handle_round_needs [OF assms(1,2) r v Cons]
  show ?thesis
  proof (cases "needs ps t h src")
    case True
    obtain v' where put: "versions_set (skey src) (param_of ps (skey src)) (hver s) = Some v'"
      using versions_set_known target_sepD(5) [OF assms(1) src(1) src(1)] by blast
    let ?s = "s\<lparr>todo := rest, hver := v', hgroup := group_Go (hgroup s), pending := pending s @ [src]\<rparr>"
    have "handle_round (targetPath t) ps s = ?s" using eq True put by (simp add: copyOrCreate_def)
    moreover have "handle_ran wd ps t h (visited @ [src]) jobs ?s"
      using r True Cons by (simp add: handle_ran_def group_Go_def)
    moreover have "handle_vers ps t h (visited @ [src]) (hver ?s)"
      using handle_vers_set [OF assms(1) v src True put] by simp
    ultimately show ?thesis unfolding handle_inv_def using c by fastforce
  next
    case False
    have "handle_ran wd ps t h (visited @ [src]) jobs (s\<lparr>todo := rest\<rparr>)"
      using r False Cons by (simp add: handle_ran_def)
    moreover have "handle_vers ps t h (visited @ [src]) (hver (s\<lparr>todo := rest\<rparr>))"
      using v False unfolding handle_vers_def by auto
    ultimately show ?thesis unfolding handle_inv_def using c eq False by fastforce
  qed
qed

lemma mset_take_drop: "k < length xs \<Longrightarrow> mset (take k xs @ drop (Suc k) xs) + {#xs ! k#} = mset xs"
  by (metis add_mset_add_single append_take_drop_id Cons_nth_drop_Suc mset_append mset.simps(2) union_mset_add_mset_right)

lemma handle_inv_pending:
  assumes "handle_inv wd ps t h s"
  shows "handle_inv wd ps t h (run_pending wd (targetPath t) k s)"
proof (cases "k < length (pending s)")
  case True
  obtain visited jobs where r: "handle_ran wd ps t h visited jobs s" and v: "handle_vers ps t h visited (hver s)"
    and c: "\<not> crashed s" using assms by (auto simp: handle_inv_def)
  let ?job = "copy_job wd (targetPath t)"
  obtain e h1 where j: "?job (pending s ! k) (hhost s) = (e, h1)" by (rule prod.exhaust)
  let ?s = "s\<lparr>hgroup := group_return e (hgroup s), hhost := h1, pending := take k (pending s) @ drop (Suc k) (pending s)\<rparr>"
  have s: "run_pending wd (targetPath t) k s = ?s"
    using True j by (simp add: run_pending_def run_job_def)
  have "mset (pending ?s) + {#pending s ! k#} = mset (pending s)" using mset_take_drop [OF True] by simp
  moreover have "mset jobs + mset (pending s) = mset (filter (needs ps t h) visited)"
    using r by (simp add: handle_ran_def)
  moreover have "mset (jobs @ [pending s ! k]) + mset (pending ?s) = mset jobs + (mset (pending ?s) + {#pending s ! k#})"
    by simp
  ultimately have "mset (jobs @ [pending s ! k]) + mset (pending ?s) = mset (filter (needs ps t h) visited)"
    by simp
  then have "handle_ran wd ps t h visited (jobs @ [pending s ! k]) ?s"
    using r j True unfolding handle_ran_def
    by (auto simp: run_jobs_append run_job_def gerr_group_return split: prod.splits)
  then show ?thesis unfolding handle_inv_def s using v c by fastforce
next
  case False
  then show ?thesis using assms by (simp add: run_pending_def)
qed

lemma handle_inv_steps:
  assumes "target_sep wd t" and "fs_wf h"
  shows "handle_inv wd ps t h s \<Longrightarrow> handle_inv wd ps t h (fold (target_step wd (targetPath t) ps) cs s)"
proof (induction cs arbitrary: s)
  case (Cons c cs)
  then show ?case
    using handle_inv_round [OF assms] handle_inv_pending by (cases c) auto
qed simp

section \<open>The end of a schedule\<close>

lemma handle_round_sizes:
  "length (todo (handle_round tp ps s)) \<le> length (todo s) - 1"
  "length (pending (handle_round tp ps s)) + length (todo (handle_round tp ps s)) \<le> length (pending s) + length (todo s)"
  by (auto simp: handle_round_def copyOrCreate_def Let_def split: list.split option.split)

lemma run_pending_sizes:
  "todo (run_pending wd tp k s) = todo s" "length (pending (run_pending wd tp k s)) \<le> length (pending s)"
  "length (pending (run_pending wd tp 0 s)) = length (pending s) - 1"
  by (auto simp: run_pending_def split: prod.split)

lemma fold_step_sizes:
  "length (todo (fold (target_step wd tp ps) cs s)) \<le> length (todo s) \<and>
   length (pending (fold (target_step wd tp ps) cs s)) + length (todo (fold (target_step wd tp ps) cs s))
     \<le> length (pending s) + length (todo s)"
proof (induction cs arbitrary: s)
  case (Cons c cs)
  have "length (todo (target_step wd tp ps c s)) \<le> length (todo s) \<and>
      length (pending (target_step wd tp ps c s)) + length (todo (target_step wd tp ps c s)) \<le> length (pending s) + length (todo s)"
    using handle_round_sizes [of tp ps s] run_pending_sizes(1,2) [of wd tp _ s] by (cases c) auto
  with Cons.IH [of "target_step wd tp ps c s"] show ?case by simp
qed simp

lemma fold_rounds_todo: "length (todo (fold (target_step wd tp ps) (replicate n 0) s)) \<le> length (todo s) - n"
proof (induction n arbitrary: s)
  case (Suc n)
  from Suc.IH [of "handle_round tp ps s"] handle_round_sizes(1) [of tp ps s] show ?case by simp
qed simp

lemma fold_jobs_pending:
  "length (pending (fold (target_step wd tp ps) (replicate n 1) s)) = length (pending s) - n \<and>
   todo (fold (target_step wd tp ps) (replicate n 1) s) = todo s"
proof (induction n arbitrary: s)
  case (Suc n)
  from Suc.IH [of "run_pending wd tp 0 s"] run_pending_sizes(1) [of wd tp 0 s] run_pending_sizes(3) [of wd tp s]
  show ?case by simp
qed simp

lemma full_schedule_ends:
  assumes "s = fold (target_step wd tp ps) (full_schedule (length (srcPaths t)) sched) (handle_init t h)"
  shows "todo s = [] \<and> pending s = []"
proof -
  let ?n = "length (srcPaths t)"
  let ?s1 = "fold (target_step wd tp ps) sched (handle_init t h)"
  let ?s2 = "fold (target_step wd tp ps) (replicate ?n 0) ?s1"
  have "length (todo ?s2) \<le> length (todo ?s1) - ?n" by (rule fold_rounds_todo)
  moreover have "length (todo ?s1) \<le> ?n" "length (pending ?s2) \<le> ?n"
    using fold_step_sizes [of wd tp ps sched "handle_init t h"]
      fold_step_sizes [of wd tp ps "sched @ replicate ?n 0" "handle_init t h"]
    by (auto simp: handle_init_def)
  ultimately show ?thesis
    using fold_jobs_pending [of wd tp ps ?n ?s2] by (simp add: assms full_schedule_def)
qed

text \<open>What the group has done when \<open>handle\<close> has waited for it.\<close>

lemma handle_end:
  assumes "target_sep wd t" and "fs_wf h"
    and s: "s = fold (target_step wd (targetPath t) ps) (full_schedule (length (srcPaths t)) sched) (handle_init t h)"
  obtains jobs where "\<not> crashed s" and "running (hgroup s) = 0"
    and "hhost s = snd (run_jobs (copy_job wd (targetPath t)) jobs (zero_group, h))"
    and "gerr (hgroup s) = gerr (fst (run_jobs (copy_job wd (targetPath t)) jobs (zero_group, h)))"
    and "set jobs = {src \<in> set (srcPaths t). needs ps t h src}" and "distinct jobs"
    and "handle_vers ps t h (srcPaths t) (hver s)"
proof -
  have "handle_inv wd ps t h s"
    unfolding s by (rule handle_inv_steps [OF assms(1,2) handle_inv_init])
  then obtain visited jobs where c: "\<not> crashed s" and r: "handle_ran wd ps t h visited jobs s"
    and v: "handle_vers ps t h visited (hver s)" by (auto simp: handle_inv_def)
  have e: "todo s = []" "pending s = []" using full_schedule_ends [OF s] by simp_all
  then have m: "mset jobs = mset (filter (needs ps t h) (srcPaths t))" and vis: "visited = srcPaths t"
    using r by (simp_all add: handle_ran_def)
  have "distinct (filter (needs ps t h) (srcPaths t))"
    using assms(1) by (auto simp: target_sep_def distinct_map)
  then have "distinct jobs" using m mset_eq_imp_distinct_iff by blast
  moreover have "set jobs = {src \<in> set (srcPaths t). needs ps t h src}"
    using m by (metis set_filter set_mset_mset)
  ultimately show thesis using that [of jobs] c r v e vis by (simp add: handle_ran_def)
qed

lemma jobs_made:
  assumes "target_sep wd t" and "fs_wf h" and "set jobs = {src \<in> set (srcPaths t). needs ps t h src}" and "distinct jobs"
    and "gerr (fst (run_jobs (copy_job wd (targetPath t)) jobs (zero_group, h))) = None"
    and "src \<in> set (srcPaths t)" and "needs ps t h src"
  shows "made wd (targetPath t) src (content h)
    (content (snd (run_jobs (copy_job wd (targetPath t)) jobs (zero_group, h))) (distPath (targetPath t) src))"
proof -
  let ?tp = "targetPath t" and ?p = "distPath (targetPath t) src"
  have "job_wants wd ?tp src (path_view h) ?p (path_view (snd (run_jobs (copy_job wd ?tp) jobs (zero_group, h))) ?p)"
  proof (rule copy_jobs.run_jobs_makes [of "refuse h"])
    show "job_good (refuse h) h" using assms(2) by (simp add: job_good_def)
    show "src \<in> set jobs" using assms by simp
    show "?p \<in> job_touches ?tp src" using in_touch_dist job_touches_iff by blast
  qed (use assms(3-5) target_sepD(2,3) [OF assms(1)] in auto)
  then show ?thesis by (simp add: job_wants_def path_view_def o_def)
qed


text \<open>A target whose kernel is out of date.\<close>

definition demo_params :: "string \<Rightarrow> string option" where
  "demo_params = map_of [(''kernel'', ''2''), (''initrd'', ''1''), (''rootfs'', ''1''), (''data'', ''1'')]"

definition demo_target :: targetContext where
  "demo_target =
     \<lparr>targetPath = ''/t'',
      srcPaths = [\<lparr>skey = ''kernel'', spath = ''/w/k''\<rparr>, \<lparr>skey = ''initrd'', spath = ''/w/i''\<rparr>,
                  \<lparr>skey = ''rootfs'', spath = ''/w/r''\<rparr>, \<lparr>skey = ''data'', spath = ''/t/data.img''\<rparr>],
      tversions = \<lparr>Kernel = ''1'', Initrd = ''1'', Rootfs = ''1'', Data = ''1'', vjpath = ''/t/v'', needUpdateJSON = False\<rparr>\<rparr>"

definition demo_host :: hostfs where
  "demo_host = host_with [(''/w/k'', ''new''), (''/w/i'', ''i''), (''/w/r'', ''r''),
     (''/t/k'', ''old''), (''/t/i'', ''i''), (''/t/r'', ''r''), (''/t/data.img'', ''d'')] [''/t'', ''/w'']"

lemma demo_ok: "(case fst (handle [0, 1, 0, 0] (Inr ''/'') demo_params demo_target demo_host) of Ret None \<Rightarrow> True | _ \<Rightarrow> False)"
  by code_simp

lemma demo_sep: "target_sep (Inr ''/'') demo_target"
  by code_simp

abbreviation demo_handle :: "goerr option outcome \<times> versionsJSON \<times> hostfs" where
  "demo_handle \<equiv> handle [0, 1, 0, 0] (Inr ''/'') demo_params demo_target demo_host"

lemma demo_handle_ret: obtains v h' where "demo_handle = (Ret None, v, h')"
proof -
  obtain r v h' where "demo_handle = (r, v, h')" by (rule prod_cases3)
  with demo_ok that show thesis by (cases r) (auto split: option.splits)
qed

lemma fs_wf_demo_host: "fs_wf demo_host"
  by (simp add: demo_host_def)


text \<open>
  C21: \<open>handle\<close> never panics and never blocks, and it touches the version file only when all that was out
  of date has been brought up to date: when it returns an error, the version file is as it was, or every
  copy has succeeded and it was the writing of the version file that failed.
\<close>

theorem handle_error_keeps_versions:
  assumes "target_sep wd t" and "fs_wf h"
  shows "\<exists>e v h'. handle sched wd ps t h = (Ret e, v, h') \<and>
    (content h' (vjpath (tversions t)) \<noteq> content h (vjpath (tversions t)) \<longrightarrow>
      (\<forall>src \<in> set (srcPaths t). needs ps t h src \<longrightarrow>
         made wd (targetPath t) src (content h) (content h' (distPath (targetPath t) src))))"
proof -
  let ?tp = "targetPath t" and ?vj = "vjpath (tversions t)"
  define s where "s = fold (target_step wd ?tp ps) (full_schedule (length (srcPaths t)) sched) (handle_init t h)"
  obtain jobs where c: "\<not> crashed s" and r: "running (hgroup s) = 0"
    and hh: "hhost s = snd (run_jobs (copy_job wd ?tp) jobs (zero_group, h))"
    and ge: "gerr (hgroup s) = gerr (fst (run_jobs (copy_job wd ?tp) jobs (zero_group, h)))"
    and set: "set jobs = {src \<in> set (srcPaths t). needs ps t h src}" and d: "distinct jobs"
    and v: "handle_vers ps t h (srcPaths t) (hver s)"
    by (rule handle_end [OF assms s_def])
  have vj: "content (hhost s) ?vj = content h ?vj"
    using run_jobs_view [OF assms(2), of jobs ?vj ?tp wd zero_group] target_sepD(6) [OF assms(1)] set
    by (auto simp: hh path_view_def)
  show ?thesis
  proof (cases "gerr (hgroup s)")
    case (Some e)
    then have "handle sched wd ps t h = (Ret (Some e), hver s, hhost s)"
      using c r by (simp add: handle_def s_def [symmetric] Let_def group_Wait_def)
    then show ?thesis using vj by auto
  next
    case None
    obtain e h' where sv: "saveToDisk (hver s) (hhost s) = (e, h')" by (rule prod.exhaust)
    then have ret: "handle sched wd ps t h = (Ret e, hver s, h')"
      using c r None by (simp add: handle_def s_def [symmetric] Let_def group_Wait_def)
    have "made wd ?tp src (content h) (content h' (distPath ?tp src))"
      if src: "src \<in> set (srcPaths t)" and n: "needs ps t h src" for src
    proof -
      let ?p = "distPath ?tp src"
      have "fs_wf (hhost s)" unfolding hh by (rule run_jobs_wf [OF assms(2)])
      then have "content h' ?p = content (hhost s) ?p"
        by (rule saveToDisk_other [OF _ sv])
          (use v target_sepD(6) [OF assms(1) src src] in_touch_dist job_touches_iff in \<open>metis handle_vers_def\<close>)
      then show ?thesis
        using jobs_made [OF assms set d _ src n] ge None by (simp add: hh)
    qed
    then show ?thesis using ret by blast
  qed
qed

theorem handle_error_keeps_versions_witness:
  "\<exists>e v h'. handle [] (Inr ''/'') demo_params demo_target
       (demo_host\<lparr>refuse := (\<lambda>op p. if op = OpOpen \<and> p = ''/t/k'' then Some EACCES else None)\<rparr>) = (Ret e, v, h') \<and>
     content h' ''/t/v'' = None"
proof -
  let ?h = "demo_host\<lparr>refuse := (\<lambda>op p. if op = OpOpen \<and> p = ''/t/k'' then Some EACCES else None)\<rparr>"
  let ?k = "\<lparr>skey = ''kernel'', spath = ''/w/k''\<rparr>"
  have wf: "fs_wf ?h" using fs_wf_demo_host by (simp add: fs_wf_def)
  have v: "vjpath (tversions demo_target) = ''/t/v''" "content ?h ''/t/v'' = None"
    by (simp_all add: demo_target_def content_def demo_host_def host_with_def)
  obtain e v h' where r: "handle [] (Inr ''/'') demo_params demo_target ?h = (Ret e, v, h')"
    and c: "content h' ''/t/v'' \<noteq> None \<longrightarrow>
      (\<forall>src \<in> set (srcPaths demo_target). needs demo_params demo_target ?h src \<longrightarrow>
         made (Inr ''/'') ''/t'' src (content ?h) (content h' (distPath ''/t'' src)))"
    using handle_error_keeps_versions [OF demo_sep wf, of "[]" demo_params] v by (auto simp: demo_target_def)
  have "fst (handle [] (Inr ''/'') demo_params demo_target ?h) \<noteq> Ret None \<and>
     content (snd (snd (handle [] (Inr ''/'') demo_params demo_target ?h))) ''/t/k'' = Some (file_of ''old'')"
    by code_simp
  then have "content h' ''/t/k'' = Some (file_of ''old'')" using r by simp
  moreover have "needs demo_params demo_target ?h ?k" "distPath ''/t'' ?k = ''/t/k''"
    "filepath_Abs (Inr ''/'') ''/w/k'' = Inr ''/w/k''" "?k \<in> set (srcPaths demo_target)"
    by code_simp+
  moreover have "content ?h ''/w/k'' = Some (file_of ''new'')"
    by (simp add: content_def demo_host_def host_with_def)
  moreover have "file_of ''old'' \<noteq> file_of ''new''" by (simp add: file_of_def)
  ultimately have "\<not> made (Inr ''/'') ''/t'' ?k (content ?h) (content h' (distPath ''/t'' ?k))"
    by (simp add: made_def)
  with c \<open>needs demo_params demo_target ?h ?k\<close> \<open>?k \<in> set (srcPaths demo_target)\<close>
  have "content h' ''/t/v'' = None" by blast
  with r show ?thesis by blast
qed

lemma saveToDisk_keeps:
  assumes "fs_wf h" and "saveToDisk v h = (None, h')"
  shows "fs_wf h'" and "refuse h' = refuse h" and "names h p \<noteq> None \<Longrightarrow> names h' p \<noteq> None"
proof -
  have "only_at {vjpath v} h h' \<and> (names h (vjpath v) \<noteq> None \<longrightarrow> names h' (vjpath v) \<noteq> None)"
  proof (cases "needUpdateJSON v")
    case True
    then obtain i h1 d where o: "open_create True (vjpath v) h = (Inr i, h1)" and w: "h' = snd (fh_Write (vjpath v) i 0 d h1)"
      using assms(2) by (auto simp: saveToDisk_def os_WriteFile_def split: prod.splits sum.splits) (metis snd_conv)
    have "only_at {vjpath v} h h1" by (rule only_at_open [OF assms(1) o]) simp
    moreover have "only_at {vjpath v} h1 h'" unfolding w
      by (rule only_at_write(1) [of h1 "vjpath v"]) (use open_create_wf [OF assms(1) o] open_create_ok(1) [OF o] in auto)
    ultimately show ?thesis using only_at_trans open_create_ok(1) [OF o] w by (auto simp: host_simps)
  next
    case False
    with assms show ?thesis by (simp add: saveToDisk_def only_at_refl)
  qed
  then show "fs_wf h'" "refuse h' = refuse h" "names h p \<noteq> None \<Longrightarrow> names h' p \<noteq> None"
    by (cases "p = vjpath v"; simp add: only_at_def)+
qed

lemma handle_nothing:
  assumes "target_sep wd t" and "fs_wf h" and "\<And>src. src \<in> set (srcPaths t) \<Longrightarrow> \<not> needs ps t h src"
    and "\<not> needUpdateJSON (tversions t)"
  shows "\<exists>v. handle sched wd ps t h = (Ret None, v, h)"
proof -
  define s where "s = fold (target_step wd (targetPath t) ps) (full_schedule (length (srcPaths t)) sched) (handle_init t h)"
  obtain jobs where c: "\<not> crashed s" and r: "running (hgroup s) = 0"
    and hh: "hhost s = snd (run_jobs (copy_job wd (targetPath t)) jobs (zero_group, h))"
    and ge: "gerr (hgroup s) = gerr (fst (run_jobs (copy_job wd (targetPath t)) jobs (zero_group, h)))"
    and set: "set jobs = {src \<in> set (srcPaths t). needs ps t h src}" and v: "handle_vers ps t h (srcPaths t) (hver s)"
    by (rule handle_end [OF assms(1,2) s_def])
  have "set jobs = {}" unfolding set using assms(3) by blast
  then have "jobs = []" by simp
  then have "hhost s = h" "gerr (hgroup s) = None" using hh ge by (simp_all add: zero_group_def)
  moreover have "\<not> needUpdateJSON (hver s)" using v assms(3,4) by (auto simp: handle_vers_def)
  ultimately show ?thesis
    using c r by (simp add: handle_def s_def [symmetric] Let_def group_Wait_def saveToDisk_def)
qed



lemma saveToDisk_wf: "fs_wf h \<Longrightarrow> fs_wf (snd (saveToDisk v h))"
  using os_WriteFile_wf by (auto simp: saveToDisk_def)

lemma handle_wf:
  assumes "target_sep wd t" and "fs_wf h"
  shows "fs_wf (snd (snd (handle sched wd ps t h)))"
proof -
  define s where "s = fold (target_step wd (targetPath t) ps) (full_schedule (length (srcPaths t)) sched) (handle_init t h)"
  obtain jobs where hh: "hhost s = snd (run_jobs (copy_job wd (targetPath t)) jobs (zero_group, h))"
    by (rule handle_end [OF assms s_def])
  have "fs_wf (hhost s)" unfolding hh by (rule run_jobs_wf [OF assms(2)])
  then show ?thesis
    using saveToDisk_wf [of "hhost s" "hver s"]
    by (auto simp: handle_def s_def [symmetric] Let_def split: option.split prod.split)
qed

definition partial_target :: targetContext where
  "partial_target = demo_target\<lparr>tversions := (tversions demo_target)\<lparr>Kernel := ''2''\<rparr>\<rparr>"

definition partial_host :: hostfs where
  "partial_host = (host_with [(''/w/k'', ''new''), (''/w/i'', ''i''), (''/w/r'', ''r''), (''/t/i'', ''i''), (''/t/r'', ''r''),
     (''/t/data.img'', ''d'')] [''/t'', ''/w''])\<lparr>refuse := (\<lambda>op p. if op = OpWrite \<and> p = ''/t/k'' then Some ENOSPC else None),
       short := (\<lambda>_. 2)\<rparr>"

lemma partial_runs:
  "let r = handle [] (Inr ''/'') demo_params partial_target partial_host; h1 = snd (snd r)
   in (case fst r of Ret (Some e) \<Rightarrow> True | _ \<Rightarrow> False) \<and>
      content h1 ''/w/k'' = Some (file_of ''new'') \<and> content h1 ''/t/k'' = Some (file_of ''ne'') \<and>
      list_all (\<lambda>src. \<not> needs demo_params partial_target (h1\<lparr>refuse := (\<lambda>_ _. None)\<rparr>) src) (srcPaths partial_target)"
  by code_simp

text \<open>
  C39: A copy that failed half-way can be taken for the file. An existing target with the recorded version is
  not looked at, so when a target is missing, its version is unchanged and the copy breaks off, the next
  \<open>handle\<close> returns without an error and leaves the partial file.
\<close>

theorem handle_accepts_partial:
  "\<exists>e v h' v'. handle [] (Inr ''/'') demo_params partial_target partial_host = (Ret (Some e), v, h') \<and>
     handle [] (Inr ''/'') demo_params partial_target (h'\<lparr>refuse := (\<lambda>_ _. None)\<rparr>) = (Ret None, v', h'\<lparr>refuse := (\<lambda>_ _. None)\<rparr>) \<and>
     content h' ''/w/k'' = Some (file_of ''new'') \<and> content h' ''/t/k'' = Some (file_of ''ne'')"
proof -
  obtain r v h' where r: "handle [] (Inr ''/'') demo_params partial_target partial_host = (r, v, h')"
    by (rule prod_cases3)
  then obtain e where e: "r = Ret (Some e)" and c: "content h' ''/w/k'' = Some (file_of ''new'')"
    "content h' ''/t/k'' = Some (file_of ''ne'')"
    and n: "\<And>src. src \<in> set (srcPaths partial_target) \<Longrightarrow> \<not> needs demo_params partial_target (h'\<lparr>refuse := (\<lambda>_ _. None)\<rparr>) src"
    using partial_runs by (cases r) (auto simp: list_all_iff Let_def split: option.splits)
  have sep: "target_sep (Inr ''/'') partial_target" by code_simp
  have "fs_wf partial_host"
    using fs_wf_host_with [of "[(''/w/k'', ''new''), (''/w/i'', ''i''), (''/w/r'', ''r''), (''/t/i'', ''i''), (''/t/r'', ''r''),
       (''/t/data.img'', ''d'')]" "[''/t'', ''/w'']"] by (simp add: partial_host_def fs_wf_def)
  then have "fs_wf (h'\<lparr>refuse := (\<lambda>_ _. None)\<rparr>)"
    using handle_wf [OF sep, of partial_host "[]" demo_params] r by (simp add: fs_wf_def)
  then have "\<exists>v'. handle [] (Inr ''/'') demo_params partial_target (h'\<lparr>refuse := (\<lambda>_ _. None)\<rparr>) =
      (Ret None, v', h'\<lparr>refuse := (\<lambda>_ _. None)\<rparr>)"
    by (rule handle_nothing [OF sep _ n]) (simp_all add: partial_target_def demo_target_def)
  with r e c show ?thesis by blast
qed

text \<open>With known keys \<open>handle\<close> returns, whatever the paths are.\<close>

lemma target_step_known:
  assumes "\<forall>src \<in> set (todo s). skey src \<in> set version_keys" and "\<not> crashed s" and "running (hgroup s) = length (pending s)"
  shows "(\<forall>src \<in> set (todo (target_step wd tp ps c s)). skey src \<in> set version_keys) \<and>
    \<not> crashed (target_step wd tp ps c s) \<and>
    running (hgroup (target_step wd tp ps c s)) = length (pending (target_step wd tp ps c s))"
proof (cases c)
  case 0
  then show ?thesis
    using assms versions_set_known
    by (auto simp: handle_round_def copyOrCreate_def Let_def group_Go_def split: list.split option.split)
      (metis option.distinct(1))+
next
  case (Suc k)
  then show ?thesis
    using assms by (auto simp: run_pending_def run_job_def split: prod.split)
qed

lemma fold_step_known:
  assumes "\<forall>src \<in> set (todo s). skey src \<in> set version_keys" and "\<not> crashed s" and "running (hgroup s) = length (pending s)"
  shows "\<not> crashed (fold (target_step wd tp ps) cs s) \<and>
    running (hgroup (fold (target_step wd tp ps) cs s)) = length (pending (fold (target_step wd tp ps) cs s))"
  using assms
proof (induction cs arbitrary: s)
  case (Cons c cs)
  then show ?case using target_step_known [OF Cons.prems, of wd tp ps c] by simp
qed simp

lemma handle_returns:
  assumes "\<forall>src \<in> set (srcPaths t). skey src \<in> set version_keys"
  shows "\<exists>e v h'. handle sched wd ps t h = (Ret e, v, h')"
proof -
  define s where "s = fold (target_step wd (targetPath t) ps) (full_schedule (length (srcPaths t)) sched) (handle_init t h)"
  have "\<not> crashed s" "running (hgroup s) = length (pending s)"
    using fold_step_known [of "handle_init t h" wd "targetPath t" ps "full_schedule (length (srcPaths t)) sched"] assms
    by (simp_all add: s_def handle_init_def zero_group_def)
  moreover have "pending s = []" using full_schedule_ends [OF s_def] by simp
  ultimately show ?thesis
    by (auto simp: handle_def s_def [symmetric] Let_def group_Wait_def split: option.split prod.split)
qed

lemma newTarget_known:
  assumes "newTarget order versions tp k i r d vp ps h = (Inr t, ps', h')"
  shows "\<forall>src \<in> set (srcPaths t). skey src \<in> set version_keys"
  using assms by (auto simp: newTarget_def version_keys_def split: prod.splits sum.splits)

end
