(* ===== verification/Go_Md5.thy ===== *)
theory Go_Md5
  imports Go_Strings "HOL-Library.Word"
begin

text \<open>
  Go's \<open>crypto/md5\<close> and \<open>encoding/hex\<close> as the lock file's name uses them (src/pkg/cli/setup.go): the
  digest of a byte string (RFC 1321) and its 32 hexadecimal digits.
\<close>

unbundle bit_operations_syntax

definition md5_K :: "int list" where
  "md5_K =
     [0xd76aa478, 0xe8c7b756, 0x242070db, 0xc1bdceee, 0xf57c0faf, 0x4787c62a,
      0xa8304613, 0xfd469501, 0x698098d8, 0x8b44f7af, 0xffff5bb1, 0x895cd7be,
      0x6b901122, 0xfd987193, 0xa679438e, 0x49b40821, 0xf61e2562, 0xc040b340,
      0x265e5a51, 0xe9b6c7aa, 0xd62f105d, 0x2441453, 0xd8a1e681, 0xe7d3fbc8,
      0x21e1cde6, 0xc33707d6, 0xf4d50d87, 0x455a14ed, 0xa9e3e905, 0xfcefa3f8,
      0x676f02d9, 0x8d2a4c8a, 0xfffa3942, 0x8771f681, 0x6d9d6122, 0xfde5380c,
      0xa4beea44, 0x4bdecfa9, 0xf6bb4b60, 0xbebfbc70, 0x289b7ec6, 0xeaa127fa,
      0xd4ef3085, 0x4881d05, 0xd9d4d039, 0xe6db99e5, 0x1fa27cf8, 0xc4ac5665,
      0xf4292244, 0x432aff97, 0xab9423a7, 0xfc93a039, 0x655b59c3, 0x8f0ccc92,
      0xffeff47d, 0x85845dd1, 0x6fa87e4f, 0xfe2ce6e0, 0xa3014314, 0x4e0811a1,
      0xf7537e82, 0xbd3af235, 0x2ad7d2bb, 0xeb86d391]"

definition md5_S :: "nat list" where
  "md5_S =
     [7, 12, 17, 22, 7, 12, 17, 22, 7, 12, 17, 22, 7, 12, 17, 22,
      5, 9, 14, 20, 5, 9, 14, 20, 5, 9, 14, 20, 5, 9, 14, 20,
      4, 11, 16, 23, 4, 11, 16, 23, 4, 11, 16, 23, 4, 11, 16, 23,
      6, 10, 15, 21, 6, 10, 15, 21, 6, 10, 15, 21, 6, 10, 15, 21]"

type_synonym md5_state = "32 word \<times> 32 word \<times> 32 word \<times> 32 word"

definition rotl32 :: "nat \<Rightarrow> 32 word \<Rightarrow> 32 word" where
  "rotl32 n w = push_bit n w OR drop_bit (32 - n) w"

text \<open>One of the 64 operations on a block of sixteen words.\<close>

definition md5_op :: "32 word list \<Rightarrow> nat \<Rightarrow> md5_state \<Rightarrow> md5_state" where
  "md5_op blk i st =
     (case st of (a, b, c, d) \<Rightarrow>
        let (f, g) =
          (if i < 16 then ((b AND c) OR (NOT b AND d), i)
           else if i < 32 then ((d AND b) OR (NOT d AND c), (5 * i + 1) mod 16)
           else if i < 48 then (b XOR c XOR d, (3 * i + 5) mod 16)
           else (c XOR (b OR NOT d), (7 * i) mod 16))
        in (d, b + rotl32 (md5_S ! i) (a + f + of_int (md5_K ! i) + blk ! g), b, c))"

definition md5_block :: "32 word list \<Rightarrow> md5_state \<Rightarrow> md5_state" where
  "md5_block blk st =
     (case (st, fold (md5_op blk) [0..<64] st) of
        ((a, b, c, d), (a', b', c', d')) \<Rightarrow> (a + a', b + b', c + c', d + d'))"

definition le_word :: "int list \<Rightarrow> 32 word" where
  "le_word bs = foldr (\<lambda>b w. of_int b + 256 * w) bs 0"

fun chunks :: "nat \<Rightarrow> nat \<Rightarrow> 'a list \<Rightarrow> 'a list list" where
  "chunks 0 n xs = []"
| "chunks (Suc k) n xs = take n xs # chunks k n (drop n xs)"

definition le_bytes :: "nat \<Rightarrow> int \<Rightarrow> int list" where
  "le_bytes n v = map (\<lambda>i. v div 256 ^ i mod 256) [0..<n]"

text \<open>The padded message: a byte 0x80, zero bytes, and the length in bits as eight bytes.\<close>

definition md5_pad :: "int list \<Rightarrow> int list" where
  "md5_pad m = m @ [128] @ replicate ((119 - length m mod 64) mod 64) 0 @ le_bytes 8 (8 * int (length m))"

definition md5_digest :: "string \<Rightarrow> int list" where
  "md5_digest s =
     (let m = md5_pad (map of_char s);
          blocks = map (\<lambda>blk. map le_word (chunks 16 4 blk)) (chunks (length m div 64) 64 m)
      in case fold md5_block blocks (0x67452301, 0xefcdab89, 0x98badcfe, 0x10325476) of
           (a, b, c, d) \<Rightarrow> concat (map (\<lambda>w. le_bytes 4 (uint w)) [a, b, c, d]))"

definition hex_EncodeToString :: "int list \<Rightarrow> string" where
  "hex_EncodeToString bs = concat (map (\<lambda>b. [hex_digit (nat (b div 16)), hex_digit (nat (b mod 16))]) bs)"

definition md5_hex :: "string \<Rightarrow> string" where
  "md5_hex s = hex_EncodeToString (md5_digest s)"

lemma length_md5_digest: "length (md5_digest s) = 16"
  by (simp add: md5_digest_def le_bytes_def Let_def split: prod.split)

lemma length_md5_hex: "length (md5_hex s) = 32"
proof -
  have "length (hex_EncodeToString bs) = 2 * length bs" for bs
    by (induction bs) (simp_all add: hex_EncodeToString_def)
  then show ?thesis by (simp add: md5_hex_def length_md5_digest)
qed

end
