(* ===== verification/Go_Flag.thy ===== *)
theory Go_Flag
  imports Go_Strings "HOL-Library.Word"
begin

text \<open>
  The command line of a Go program: the package \<open>flag\<close> as \<open>flag.Parse\<close> uses it, with the conversions of \<open>strconv\<close> that the
  kinds of flags call. The program reads its flags with it (src/pkg/cli/cli.go, \<open>Parse\<close>).
\<close>

section \<open>Numbers with a base prefix\<close>

datatype num_error = ErrSyntax | ErrRange

text \<open>The value of a digit in any base up to 36.\<close>

definition base_digit :: "char \<Rightarrow> nat option" where
  "base_digit c =
     (if is_digit c then Some (digit_val c)
      else let l = of_char (char_lower c) :: nat in if 97 \<le> l \<and> l \<le> 122 then Some (l - 97 + 10) else None)"

text \<open>The loop of \<open>ParseUint\<close>; underscores are skipped, and the first overflow ends it.\<close>

fun uint_loop :: "nat \<Rightarrow> nat \<Rightarrow> string \<Rightarrow> num_error + nat" where
  "uint_loop b n [] = Inr n"
| "uint_loop b n (c # cs) =
     (if c = CHR ''_'' then uint_loop b n cs
      else case base_digit c of
             None \<Rightarrow> Inl ErrSyntax
           | Some d \<Rightarrow>
               if b \<le> d then Inl ErrSyntax
               else if 2 ^ 64 \<le> n * b + d then Inl ErrRange
               else uint_loop b (n * b + d) cs)"

text \<open>The base and the digits of a number.\<close>

definition base_prefix :: "string \<Rightarrow> nat \<times> string" where
  "base_prefix s =
     (case s of
        z # rest \<Rightarrow>
          if z \<noteq> CHR ''0'' then (10, s)
          else (case rest of
                  x # d # ds \<Rightarrow>
                    if char_lower x = CHR ''b'' then (2, d # ds)
                    else if char_lower x = CHR ''o'' then (8, d # ds)
                    else if char_lower x = CHR ''x'' then (16, d # ds)
                    else (8, rest)
                | _ \<Rightarrow> (8, rest))
      | [] \<Rightarrow> (10, []))"

text \<open>\<open>underscoreOK\<close>: what was seen last is a digit, an underscore, or something else.\<close>

datatype seen = SeenNone | SeenDigit | SeenUnderscore | SeenOther

fun underscore_loop :: "bool \<Rightarrow> seen \<Rightarrow> string \<Rightarrow> bool" where
  "underscore_loop hex saw [] = (saw \<noteq> SeenUnderscore)"
| "underscore_loop hex saw (c # cs) =
     (if is_digit c \<or> hex \<and> (case base_digit c of Some d \<Rightarrow> 10 \<le> d \<and> d \<le> 15 | None \<Rightarrow> False)
      then underscore_loop hex SeenDigit cs
      else if c = CHR ''_'' then saw = SeenDigit \<and> underscore_loop hex SeenUnderscore cs
      else saw \<noteq> SeenUnderscore \<and> underscore_loop hex SeenOther cs)"

definition underscoreOK :: "string \<Rightarrow> bool" where
  "underscoreOK s =
     (let t = (case s of c # cs \<Rightarrow> if c = CHR ''-'' \<or> c = CHR ''+'' then cs else s | [] \<Rightarrow> s)
      in case t of
           z # x # cs \<Rightarrow>
             if z = CHR ''0'' \<and> char_lower x \<in> {CHR ''b'', CHR ''o'', CHR ''x''}
             then underscore_loop (char_lower x = CHR ''x'') SeenDigit cs
             else underscore_loop False SeenNone t
         | _ \<Rightarrow> underscore_loop False SeenNone t)"

text \<open>\<open>ParseUint(s, 0, 64)\<close> and \<open>ParseInt(s, 0, 64)\<close>.\<close>

definition ParseUint :: "string \<Rightarrow> num_error + nat" where
  "ParseUint s =
     (if s = [] then Inl ErrSyntax
      else case base_prefix s of
             (b, ds) \<Rightarrow>
               (case uint_loop b 0 ds of
                  Inl e \<Rightarrow> Inl e
                | Inr n \<Rightarrow> if CHR ''_'' \<in> set ds \<and> \<not> underscoreOK s then Inl ErrSyntax else Inr n))"

definition ParseInt :: "string \<Rightarrow> num_error + int" where
  "ParseInt s =
     (case s of
        [] \<Rightarrow> Inl ErrSyntax
      | c # cs \<Rightarrow>
          (let neg = (c = CHR ''-'');
               ds = (if c = CHR ''+'' \<or> c = CHR ''-'' then cs else s)
           in case ParseUint ds of
                Inl e \<Rightarrow> Inl e
              | Inr n \<Rightarrow>
                  if \<not> neg \<and> 2 ^ 63 \<le> n then Inl ErrRange
                  else if neg \<and> 2 ^ 63 < n then Inl ErrRange
                  else Inr (if neg then - int n else int n)))"

definition ParseBool :: "string \<Rightarrow> num_error + bool" where
  "ParseBool s =
     (if s \<in> {''1'', ''t'', ''T'', ''true'', ''TRUE'', ''True''} then Inr True
      else if s \<in> {''0'', ''f'', ''F'', ''false'', ''FALSE'', ''False''} then Inr False
      else Inl ErrSyntax)"

section \<open>Flags\<close>

datatype flag_kind = KString | KBool | KUint | KInt
datatype flag_val = VString string | VBool bool | VUint "64 word" | VInt int

text \<open>The method \<open>Set\<close> of the kinds; the error of a number is one of two texts.\<close>

definition num_text :: "num_error \<Rightarrow> string" where
  "num_text e = (case e of ErrSyntax \<Rightarrow> ''parse error'' | ErrRange \<Rightarrow> ''value out of range'')"

definition value_Set :: "flag_kind \<Rightarrow> string \<Rightarrow> string + flag_val" where
  "value_Set k s =
     (case k of
        KString \<Rightarrow> Inr (VString s)
      | KBool \<Rightarrow> (case ParseBool s of Inl e \<Rightarrow> Inl (num_text e) | Inr b \<Rightarrow> Inr (VBool b))
      | KUint \<Rightarrow> (case ParseUint s of Inl e \<Rightarrow> Inl (num_text e) | Inr n \<Rightarrow> Inr (VUint (of_nat n)))
      | KInt \<Rightarrow> (case ParseInt s of Inl e \<Rightarrow> Inl (num_text e) | Inr i \<Rightarrow> Inr (VInt i)))"

text \<open>What \<open>parseOne\<close> finds: a flag with its value and the rest, the end of the flags with the rest, the wish for help, or an error.\<close>

datatype one_flag = FlagSet string flag_val "string list" | FlagsEnd "string list" | FlagHelp | FlagError string

text \<open>The name up to the first equals sign, which cannot be its first character, and the value after it.\<close>

definition name_value :: "string \<Rightarrow> string \<times> string option" where
  "name_value t =
     (case t of
        [] \<Rightarrow> ([], None)
      | c # cs \<Rightarrow>
          (case dropWhile (\<lambda>x. x \<noteq> CHR ''='') cs of
             [] \<Rightarrow> (t, None)
           | e # v \<Rightarrow> (c # takeWhile (\<lambda>x. x \<noteq> CHR ''='') cs, Some v)))"

definition flag_value :: "(string \<Rightarrow> flag_kind option) \<Rightarrow> string \<Rightarrow> string list \<Rightarrow> one_flag" where
  "flag_value formal t args =
     (case name_value t of
        (name, v) \<Rightarrow>
          (case formal name of
             None \<Rightarrow> if name = ''help'' \<or> name = ''h'' then FlagHelp else FlagError (''flag provided but not defined: -'' @ name)
           | Some KBool \<Rightarrow>
               (let s = (case v of Some x \<Rightarrow> x | None \<Rightarrow> ''true'')
                in case value_Set KBool s of
                     Inl e \<Rightarrow> FlagError (''invalid boolean value '' @ strconv_Quote s @ '' for -'' @ name @ '': '' @ e)
                   | Inr x \<Rightarrow> FlagSet name x args)
           | Some k \<Rightarrow>
               (case (case v of Some x \<Rightarrow> Some (x, args) | None \<Rightarrow> (case args of a # as \<Rightarrow> Some (a, as) | [] \<Rightarrow> None)) of
                  None \<Rightarrow> FlagError (''flag needs an argument: -'' @ name)
                | Some (s, rest) \<Rightarrow>
                    (case value_Set k s of
                       Inl e \<Rightarrow> FlagError (''invalid value '' @ strconv_Quote s @ '' for flag -'' @ name @ '': '' @ e)
                     | Inr x \<Rightarrow> FlagSet name x rest))))"

definition parseOne :: "(string \<Rightarrow> flag_kind option) \<Rightarrow> string list \<Rightarrow> one_flag" where
  "parseOne formal args =
     (case args of
        [] \<Rightarrow> FlagsEnd []
      | s # as \<Rightarrow>
          if length s < 2 \<or> hd s \<noteq> CHR ''-'' then FlagsEnd args
          else if s = ''--'' then FlagsEnd as
          else let t = (if s ! 1 = CHR ''-'' then drop 2 s else drop 1 s)
               in if t = [] \<or> hd t = CHR ''-'' \<or> hd t = CHR ''='' then FlagError (''bad flag syntax: '' @ s)
                  else flag_value formal t as)"

lemma flag_value_shorter:
  assumes "flag_value formal t args = FlagSet n v rest"
  shows "length rest \<le> length args"
proof -
  obtain name w where nv: "name_value t = (name, w)" by (rule prod.exhaust)
  show ?thesis
  proof (cases "formal name")
    case None
    then show ?thesis using assms by (simp add: flag_value_def nv split: if_splits)
  next
    case (Some k)
    show ?thesis using assms unfolding flag_value_def nv
      by (cases k; cases w; cases args) (auto simp: Some Let_def split: sum.splits)
  qed
qed

lemma parseOne_shorter: "parseOne formal args = FlagSet n v rest \<Longrightarrow> length rest < length args"
  by (cases args) (auto simp: parseOne_def Let_def split: if_splits dest: flag_value_shorter)

text \<open>
  \<open>Parse\<close> of the set of flags of a program, which exits on an error with the code 2 and after the help text with the code 0. The values are
  given to \<open>put\<close> one after the other.
\<close>

datatype 's parsed = Parsed 's "string list" | FlagExit int string

function flag_Parse :: "(string \<Rightarrow> flag_kind option) \<Rightarrow> (string \<Rightarrow> flag_val \<Rightarrow> 's \<Rightarrow> 's) \<Rightarrow> string list \<Rightarrow> 's \<Rightarrow> 's parsed" where
  "flag_Parse formal put args st =
     (case parseOne formal args of
        FlagSet n v rest \<Rightarrow> flag_Parse formal put rest (put n v st)
      | FlagsEnd rest \<Rightarrow> Parsed st rest
      | FlagHelp \<Rightarrow> FlagExit 0 []
      | FlagError m \<Rightarrow> FlagExit 2 m)"
  by pat_completeness auto
termination by (relation "measure (\<lambda>(formal, put, args, st). length args)") (auto dest: parseOne_shorter)

declare flag_Parse.simps [simp del]

section \<open>Printing and parsing\<close>

lemma base_digit_digit [simp]: "is_digit c \<Longrightarrow> base_digit c = Some (digit_val c)"
  by (simp add: base_digit_def)

lemma digit_bounds: "is_digit c \<Longrightarrow> digit_val c < 10" "is_digit c \<Longrightarrow> c \<noteq> CHR ''_''"
  by (auto simp: is_digit_def digit_val_def)

lemma digits_val_ge: "foldl (\<lambda>n c. 10 * n + digit_val c) m s \<ge> m"
proof (induction s arbitrary: m)
  case (Cons c s)
  show ?case using Cons [of "10 * m + digit_val c"] by simp
qed simp

lemma uint_loop_digits:
  assumes "list_all is_digit s" and "foldl (\<lambda>n c. 10 * n + digit_val c) m s < 2 ^ 64"
  shows "uint_loop 10 m s = Inr (foldl (\<lambda>n c. 10 * n + digit_val c) m s)"
  using assms
proof (induction s arbitrary: m)
  case (Cons c s)
  have "10 * m + digit_val c < 2 ^ 64" using digits_val_ge [of "10 * m + digit_val c" s] Cons.prems(2) by simp
  with Cons digit_bounds [of c] show ?case by (simp add: mult.commute)
qed simp

lemma hd_nat_digits_0: "0 < n \<Longrightarrow> hd (nat_digits n) \<noteq> CHR ''0''"
proof (induction n rule: nat_digits.induct)
  case (1 n)
  show ?case
  proof (cases "n < 10")
    case True
    then have "of_char (digit_char n) \<noteq> (of_char (CHR ''0'') :: nat)" using 1 by (simp add: of_char_digit_char)
    then show ?thesis using True by (subst nat_digits.simps) auto
  next
    case False
    then show ?thesis using 1 by (subst nat_digits.simps) (simp add: hd_append)
  qed
qed

lemma ParseUint_digits: "n < 2 ^ 64 \<Longrightarrow> ParseUint (nat_digits n) = Inr n"
proof (cases "n = 0")
  case True
  moreover have "digit_char 0 = CHR ''0''" by code_simp
  ultimately show ?thesis by (simp add: nat_digits.simps ParseUint_def base_prefix_def)
next
  case False
  assume n: "n < 2 ^ 64"
  have "base_prefix (nat_digits n) = (10, nat_digits n)"
    using hd_nat_digits_0 [of n] False by (cases "nat_digits n") (auto simp: base_prefix_def)
  moreover have "uint_loop 10 0 (nat_digits n) = Inr n"
    using uint_loop_digits [of "nat_digits n" 0] nat_digits_all [of n] digits_val_nat_digits [of n] n by (simp add: digits_val_def)
  moreover have "CHR ''_'' \<notin> set (nat_digits n)" using set_nat_digits digit_bounds(2) by blast
  ultimately show ?thesis by (simp add: ParseUint_def)
qed

lemma ParseInt_Itoa: "- (2 ^ 63) \<le> i \<Longrightarrow> i < 2 ^ 63 \<Longrightarrow> ParseInt (strconv_Itoa i) = Inr i"
proof (cases "i < 0")
  case True
  moreover assume "- (2 ^ 63) \<le> i"
  ultimately show ?thesis using ParseUint_digits [of "nat (- i)"] by (auto simp: ParseInt_def strconv_Itoa_def)
next
  case False
  moreover assume "i < 2 ^ 63"
  ultimately show ?thesis using ParseUint_digits [of "nat i"] hd_nat_digits [of "nat i"]
    by (cases "nat_digits (nat i)") (auto simp: ParseInt_def strconv_Itoa_def)
qed

text \<open>A value as text, and the arguments that give it to a flag: one or two minus signs, the value behind an equals sign or as an argument of its own.\<close>

definition flag_text :: "flag_val \<Rightarrow> string" where
  "flag_text v =
     (case v of
        VString s \<Rightarrow> s
      | VBool b \<Rightarrow> if b then ''true'' else ''false''
      | VUint w \<Rightarrow> nat_digits (unat w)
      | VInt i \<Rightarrow> strconv_Itoa i)"

definition kind_of :: "flag_val \<Rightarrow> flag_kind" where
  "kind_of v = (case v of VString _ \<Rightarrow> KString | VBool _ \<Rightarrow> KBool | VUint _ \<Rightarrow> KUint | VInt _ \<Rightarrow> KInt)"

definition val_ok :: "flag_val \<Rightarrow> bool" where
  "val_ok v = (case v of VInt i \<Rightarrow> - (2 ^ 63) \<le> i \<and> i < 2 ^ 63 | _ \<Rightarrow> True)"

definition flag_args :: "bool \<Rightarrow> bool \<Rightarrow> string \<Rightarrow> flag_val \<Rightarrow> string list" where
  "flag_args two apart n v =
     (let f = (if two then ''--'' else ''-'') @ n
      in if v = VBool True \<and> apart then [f]
         else if apart \<and> kind_of v \<noteq> KBool then [f, flag_text v]
         else [f @ ''='' @ flag_text v])"

definition name_ok :: "string \<Rightarrow> bool" where
  "name_ok n = (n \<noteq> [] \<and> hd n \<noteq> CHR ''-'' \<and> CHR ''='' \<notin> set n)"

lemma ParseUint_word: "ParseUint (nat_digits (unat (w :: 64 word))) = Inr (unat w)"
  using ParseUint_digits [of "unat w"] unsigned_less [of w, where 'a = nat] by simp

lemma value_Set_text: "val_ok v \<Longrightarrow> value_Set (kind_of v) (flag_text v) = Inr v"
  by (cases v) (auto simp: value_Set_def kind_of_def flag_text_def val_ok_def ParseBool_def ParseInt_Itoa ParseUint_word)

lemma name_value_plain: "name_ok n \<Longrightarrow> name_value n = (n, None)"
proof (cases n)
  case (Cons c cs)
  moreover assume "name_ok n"
  ultimately have "dropWhile (\<lambda>x. x \<noteq> CHR ''='') cs = []" by (auto simp: name_ok_def)
  with Cons show ?thesis unfolding name_value_def by (simp only: list.case)
qed (simp add: name_ok_def)

lemma name_value_equals: "name_ok n \<Longrightarrow> name_value (n @ CHR ''='' # v) = (n, Some v)"
  by (cases n) (auto simp: name_ok_def name_value_def dropWhile_append takeWhile_append dropWhile_eq_Nil_conv)

lemma parseOne_flag:
  assumes "name_ok n" and "u = n \<or> u = n @ ''='' @ x"
  shows "parseOne formal (((if two then ''--'' else ''-'') @ u) # rest) = flag_value formal u rest"
proof -
  obtain c cs where "n = c # cs" using assms(1) by (cases n) (auto simp: name_ok_def)
  then show ?thesis using assms by (auto simp: parseOne_def name_ok_def)
qed

lemma parseOne_args:
  assumes "name_ok n" and "formal n = Some (kind_of v)" and "val_ok v"
  shows "parseOne formal (flag_args two apart n v @ rest) = FlagSet n v rest"
proof -
  note s = value_Set_text [OF assms(3)] name_value_plain [OF assms(1)] name_value_equals [OF assms(1)] assms(2)
  show ?thesis
    using s parseOne_flag [OF assms(1), of n] parseOne_flag [OF assms(1), of "n @ ''='' @ flag_text v" "flag_text v"]
    by (cases v) (auto simp: flag_args_def flag_value_def kind_of_def flag_text_def Let_def)
qed

lemma flag_Parse_args:
  assumes "list_all (\<lambda>(two, apart, n, v). name_ok n \<and> formal n = Some (kind_of v) \<and> val_ok v) as"
  shows "flag_Parse formal put (concat (map (\<lambda>(two, apart, n, v). flag_args two apart n v) as) @ rest) st =
    flag_Parse formal put rest (fold (\<lambda>(two, apart, n, v). put n v) as st)"
  using assms
proof (induction as arbitrary: st)
  case (Cons a as)
  obtain two apart n v where a: "a = (two, apart, n, v)" by (cases a)
  from Cons show ?case unfolding a by (subst flag_Parse.simps) (simp add: parseOne_args)
qed simp

lemma flag_Parse_end [simp]: "flag_Parse formal put [] st = Parsed st []"
  by (subst flag_Parse.simps) (simp add: parseOne_def)

lemma flag_Parse_undefined:
  assumes "name_ok n" and "formal n = None" and "n \<notin> {''help'', ''h''}"
  shows "flag_Parse formal put ((''--'' @ n) # rest) st = FlagExit 2 (''flag provided but not defined: -'' @ n)"
  using parseOne_flag [OF assms(1), of n _ formal True rest] assms
  by (subst flag_Parse.simps) (simp add: flag_value_def name_value_plain)

section \<open>A store of flags\<close>

text \<open>Association lists with fixed keys, by which a program gives its values.\<close>

lemma map_of_put:
  "map_of (map (\<lambda>(k, w). (k, if k = m then v else w)) l) n = (if n = m then map_option (\<lambda>_. v) (map_of l n) else map_of l n)"
  by (induction l) auto

lemma same_keys_map_of:
  assumes "map fst l = map fst l'" and "distinct (map fst l)" and "map_of l = map_of l'"
  shows "l = l'"
  using assms
proof (induction l arbitrary: l')
  case (Cons a l)
  then obtain b r where l': "l' = b # r" "fst a = fst b" "map fst l = map fst r" by (cases l') auto
  have k: "map_of l n = map_of r n" for n
  proof (cases "n = fst a")
    case True
    have "set (map fst l) = set (map fst r)" using l'(3) by simp
    then show ?thesis using True Cons.prems(2) by (auto simp: map_of_eq_None_iff [THEN iffD2])
  next
    case False
    then show ?thesis using fun_cong [OF Cons.prems(3), of n] l' by (cases a; cases b) simp
  qed
  have "snd a = snd b" using fun_cong [OF Cons.prems(3), of "fst a"] l' by (cases a; cases b) simp
  then show ?case using Cons.IH [OF l'(3)] Cons.prems(2) k l' by (auto simp: prod_eq_iff fun_eq_iff)
qed simp

text \<open>
  The contract between the package and a program: the program puts each value where its name says and nowhere else, and the values
  are all there is to its flags. Then giving every flag its value, in any order, with repetitions and in either style, sets the flags to these values.
\<close>

locale flag_store =
  fixes formal :: "string \<Rightarrow> flag_kind option"
    and put :: "string \<Rightarrow> flag_val \<Rightarrow> 's \<Rightarrow> 's"
    and get :: "string \<Rightarrow> 's \<Rightarrow> flag_val option"
  assumes formal_name: "formal n = Some k \<Longrightarrow> name_ok n"
    and get_put: "formal m = Some (kind_of v) \<Longrightarrow> get n (put m v s) = (if n = m then Some v else get n s)"
    and get_kind: "get n s = Some v \<Longrightarrow> formal n = Some (kind_of v)"
    and get_eqI: "(\<And>n. get n s = get n t) \<Longrightarrow> s = t"
begin

definition wanted :: "'s \<Rightarrow> bool \<times> bool \<times> string \<times> flag_val \<Rightarrow> bool" where
  "wanted t a = (case a of (two, apart, n, v) \<Rightarrow> get n t = Some v \<and> val_ok v)"

lemma get_fold:
  "list_all (wanted t) as \<Longrightarrow>
   get n (fold (\<lambda>(two, apart, n, v). put n v) as s) = (if n \<in> (fst \<circ> snd \<circ> snd) ` set as then get n t else get n s)"
proof (induction as arbitrary: s)
  case (Cons a as)
  obtain two apart m v where a: "a = (two, apart, m, v)" by (cases a)
  with Cons.prems have "get m t = Some v" by (simp add: wanted_def)
  with Cons show ?case by (simp add: a get_put [OF get_kind])
qed simp

lemma parse_wanted:
  assumes "list_all (wanted t) as" and "\<And>n. get n t \<noteq> get n s \<Longrightarrow> n \<in> (fst \<circ> snd \<circ> snd) ` set as"
  shows "flag_Parse formal put (concat (map (\<lambda>(two, apart, n, v). flag_args two apart n v) as) @ rest) s = flag_Parse formal put rest t"
proof -
  have "list_all (\<lambda>(two, apart, n, v). name_ok n \<and> formal n = Some (kind_of v) \<and> val_ok v) as"
    using assms(1) by (fastforce simp: list_all_iff wanted_def dest: get_kind intro: formal_name)
  moreover have "fold (\<lambda>(two, apart, n, v). put n v) as s = t"
    by (rule get_eqI) (use get_fold [OF assms(1)] assms(2) in metis)
  ultimately show ?thesis by (simp add: flag_Parse_args)
qed

end

end
