(* ===== verification/Cli.thy ===== *)
theory Cli
  imports Target Go_Md5 Go_Flag
begin

text \<open>
  Package \<open>cli\<close> (src/pkg/cli/cli.go and setup.go): the flags, their validation, and the context every other
  part of the program reads. \<open>PreSetup\<close> and \<open>Setup\<close> run their steps in goroutine groups; the order in
  which the steps run is a parameter.
\<close>

section \<open>cli.go\<close>

record flags =
  f_name :: string
  f_logPath :: string
  f_socketPath :: string
  f_sshKeyPath :: string
  f_cpus :: "64 word"
  f_memory :: "64 word"
  f_kernelPath :: string
  f_initrdPath :: string
  f_rootfsPath :: string
  f_targetPath :: string
  f_versions :: string
  f_eventSocketPath :: string
  f_cliMode :: bool
  f_bindPID :: int
  f_powerSaveMode :: bool
  f_kernelDebug :: bool
  f_extendShareDir :: string

text \<open>The values the flags have when they are not given.\<close>

definition default_flags :: flags where
  "default_flags =
     \<lparr>f_name = [], f_logPath = [], f_socketPath = [], f_sshKeyPath = [], f_cpus = 0, f_memory = 0, f_kernelPath = [],
      f_initrdPath = [], f_rootfsPath = [], f_targetPath = [], f_versions = [], f_eventSocketPath = [], f_cliMode = False,
      f_bindPID = 0, f_powerSaveMode = False, f_kernelDebug = False, f_extendShareDir = []\<rparr>"

text \<open>
  The flags the program defines: name, kind, and where the value goes. The uses \<open>StringVar\<close>, \<open>UintVar\<close>, \<open>Uint64Var\<close>, \<open>BoolVar\<close>
  and \<open>IntVar\<close> of the code differ in the kind; an unsigned number has 64 bits in both.
\<close>

definition StringVar :: "((string \<Rightarrow> string) \<Rightarrow> flags \<Rightarrow> flags) \<Rightarrow> flag_val \<Rightarrow> flags \<Rightarrow> flags" where
  "StringVar upd v = (case v of VString s \<Rightarrow> upd (\<lambda>_. s) | _ \<Rightarrow> id)"

definition UintVar :: "((64 word \<Rightarrow> 64 word) \<Rightarrow> flags \<Rightarrow> flags) \<Rightarrow> flag_val \<Rightarrow> flags \<Rightarrow> flags" where
  "UintVar upd v = (case v of VUint w \<Rightarrow> upd (\<lambda>_. w) | _ \<Rightarrow> id)"

definition BoolVar :: "((bool \<Rightarrow> bool) \<Rightarrow> flags \<Rightarrow> flags) \<Rightarrow> flag_val \<Rightarrow> flags \<Rightarrow> flags" where
  "BoolVar upd v = (case v of VBool b \<Rightarrow> upd (\<lambda>_. b) | _ \<Rightarrow> id)"

definition IntVar :: "((int \<Rightarrow> int) \<Rightarrow> flags \<Rightarrow> flags) \<Rightarrow> flag_val \<Rightarrow> flags \<Rightarrow> flags" where
  "IntVar upd v = (case v of VInt i \<Rightarrow> upd (\<lambda>_. i) | _ \<Rightarrow> id)"

definition cli_flags :: "(string \<times> flag_kind \<times> (flag_val \<Rightarrow> flags \<Rightarrow> flags)) list" where
  "cli_flags =
     [(''name'', KString, StringVar f_name_update),
      (''log-path'', KString, StringVar f_logPath_update),
      (''socket-path'', KString, StringVar f_socketPath_update),
      (''ssh-key-path'', KString, StringVar f_sshKeyPath_update),
      (''cpus'', KUint, UintVar f_cpus_update),
      (''memory'', KUint, UintVar f_memory_update),
      (''kernel-path'', KString, StringVar f_kernelPath_update),
      (''initrd-path'', KString, StringVar f_initrdPath_update),
      (''rootfs-path'', KString, StringVar f_rootfsPath_update),
      (''target-path'', KString, StringVar f_targetPath_update),
      (''versions'', KString, StringVar f_versions_update),
      (''event-socket-path'', KString, StringVar f_eventSocketPath_update),
      (''cli'', KBool, BoolVar f_cliMode_update),
      (''bind-pid'', KInt, IntVar f_bindPID_update),
      (''power-save-mode'', KBool, BoolVar f_powerSaveMode_update),
      (''kernel-debug'', KBool, BoolVar f_kernelDebug_update),
      (''extend-share-dir'', KString, StringVar f_extendShareDir_update)]"

definition cli_formal :: "string \<Rightarrow> flag_kind option" where
  "cli_formal n = map_option fst (map_of cli_flags n)"

definition cli_put :: "string \<Rightarrow> flag_val \<Rightarrow> flags \<Rightarrow> flags" where
  "cli_put n v fl = (case map_of cli_flags n of None \<Rightarrow> fl | Some (k, f) \<Rightarrow> f v fl)"

definition cli_Parse :: "string list \<Rightarrow> flags parsed" where
  "cli_Parse args = flag_Parse cli_formal cli_put args default_flags"

definition Validate :: "flags \<Rightarrow> goerr option" where
  "Validate fl =
     (if f_name fl = [] then Some (Msg ''name is required'')
      else if f_logPath fl = [] then Some (Msg ''log-path is required'')
      else if f_socketPath fl = [] then Some (Msg ''socket-path is required'')
      else if f_sshKeyPath fl = [] then Some (Msg ''ssh-key-path is required'')
      else if f_cpus fl = 0 then Some (Msg ''vcpu is required'')
      else if f_memory fl = 0 then Some (Msg ''memory is required'')
      else if f_kernelPath fl = [] then Some (Msg ''kernel-path is required'')
      else if f_initrdPath fl = [] then Some (Msg ''initrd-path is required'')
      else if f_rootfsPath fl = [] then Some (Msg ''rootfs-path is required'')
      else if f_targetPath fl = [] then Some (Msg ''disk-path is required'')
      else if f_versions fl = [] then Some (Msg ''versions is required'')
      else None)"

section \<open>setup.go\<close>

record cctx =
  Name :: string
  VersionsPath :: string
  LogPath :: string
  SocketPath :: string
  IsCliMode :: bool
  LockFile :: string
  ExecutablePath :: string
  BindPID :: int
  EventSocketPath :: string
  PowerSaveMode :: bool
  KernelDebug :: bool
  ExtendShareDir :: "string \<Rightarrow> string option"
  Endpoint :: string
  SSHPort :: int
  SSHKeyPath :: string
  SSHPrivateKeyPath :: string
  SSHPublicKeyPath :: string
  SSHPrivateKey :: string
  SSHPublicKey :: string
  SSHSigner :: "string option"
  ForwardSocketPath :: string
  SocketNetworkPath :: string
  SocketInitrdVSockPath :: string
  SocketReadyPath :: string
  RestfulSocketPath :: string
  TimeSyncSocketPath :: string
  SSHAuthSocketPath :: string
  CPUS :: "64 word"
  MemoryBytes :: "64 word"
  KernelPath :: string
  InitrdPath :: string
  RootfsPath :: string
  TargetPath :: string
  DiskDataPath :: string
  DiskTmpPath :: string

definition cli_Init :: cctx where
  "cli_Init =
     \<lparr>Name = [], VersionsPath = [], LogPath = [], SocketPath = [], IsCliMode = False, LockFile = [], ExecutablePath = [],
      BindPID = 0, EventSocketPath = [], PowerSaveMode = False, KernelDebug = False, ExtendShareDir = (\<lambda>_. None),
      Endpoint = [], SSHPort = 0, SSHKeyPath = [], SSHPrivateKeyPath = [], SSHPublicKeyPath = [], SSHPrivateKey = [],
      SSHPublicKey = [], SSHSigner = None, ForwardSocketPath = [], SocketNetworkPath = [], SocketInitrdVSockPath = [],
      SocketReadyPath = [], RestfulSocketPath = [], TimeSyncSocketPath = [], SSHAuthSocketPath = [], CPUS = 0,
      MemoryBytes = 0, KernelPath = [], InitrdPath = [], RootfsPath = [], TargetPath = [], DiskDataPath = [], DiskTmpPath = []\<rparr>"

text \<open>
  What the steps ask of the outside: the working directory, the path of the executable and its links, the
  ports, the command that makes keys, the parser of private keys, and the two orders of the target.
\<close>

record setup_env =
  env_wd :: "string res"
  env_executable :: "string res"
  env_symlinks :: "string \<Rightarrow> string res"
  env_busy :: "int \<Rightarrow> errno option"
  env_keygen :: "string list \<Rightarrow> hostfs keygen_run"
  env_parse_key :: "string \<Rightarrow> string res"
  env_order :: "string list"
  env_sched :: "nat list"

record setup_st =
  sctx :: cctx
  shost :: hostfs
  sparams :: "string \<Rightarrow> string option"

definition lockPrefixPath :: string where
  "lockPrefixPath = ''/tmp/oomol-lab.ovm.lock.1118''"

definition lock_file :: "string \<Rightarrow> string \<Rightarrow> string" where
  "lock_file exe name = lockPrefixPath @ ''/'' @ md5_hex exe @ ''-'' @ name @ ''.pid''"

text \<open>The loop over the shared directories, item by item.\<close>

fun share_dirs :: "string list \<Rightarrow> hostfs \<Rightarrow> (string \<Rightarrow> string option) \<Rightarrow> goerr option \<times> (string \<Rightarrow> string option)" where
  "share_dirs [] h m = (None, m)"
| "share_dirs (item # items) h m =
     (case strings_Split item (CHR '':'') of
        [k, d] \<Rightarrow>
          (case os_Stat d h of
             Inl e \<Rightarrow> (Some (Wrap (''extend share dir '' @ d @ '' not exists: '') e), m)
           | Inr info \<Rightarrow>
               if info \<noteq> Dir then (Some (Msg (''extend share dir '' @ d @ '' is not a directory'')), m)
               else share_dirs items h (m(k \<mapsto> d)))
      | _ \<Rightarrow> (Some (Msg (''invalid extend share dir: '' @ item)), m))"

definition basic :: "setup_env \<Rightarrow> flags \<Rightarrow> setup_st \<Rightarrow> goerr option \<times> setup_st" where
  "basic env fl s =
     (let c1 = (sctx s)\<lparr>Name := f_name fl, CPUS := f_cpus fl, MemoryBytes := f_memory fl * 1024 * 1024,
                 IsCliMode := f_cliMode fl, BindPID := f_bindPID fl, EventSocketPath := f_eventSocketPath fl,
                 PowerSaveMode := f_powerSaveMode fl, KernelDebug := f_kernelDebug fl\<rparr>
      in case os_MkdirAll lockPrefixPath (shost s) of
           (Some e, h) \<Rightarrow> (Some e, s\<lparr>sctx := c1, shost := h\<rparr>)
         | (None, h) \<Rightarrow>
             (case env_executable env of
                Inl e \<Rightarrow> (Some (Wrap ''get executable path error: '' e), s\<lparr>sctx := c1, shost := h\<rparr>)
              | Inr p0 \<Rightarrow>
                  (case env_symlinks env p0 of
                     Inl e \<Rightarrow> (Some (Wrap ''eval symlink error: '' e), s\<lparr>sctx := c1, shost := h\<rparr>)
                   | Inr p \<Rightarrow>
                       (let exe = strings_ToLower p;
                            c2 = c1\<lparr>ExecutablePath := exe, LockFile := lock_file exe (f_name fl)\<rparr>;
                            (err, m) =
                              (if f_extendShareDir fl = [] then (None, \<lambda>_. None)
                               else share_dirs (strings_Split (f_extendShareDir fl) (CHR '','')) h (\<lambda>_. None))
                        in (err, s\<lparr>sctx := c2\<lparr>ExtendShareDir := m\<rparr>, shost := h\<rparr>)))))"

definition setup_logPath :: "setup_env \<Rightarrow> flags \<Rightarrow> setup_st \<Rightarrow> goerr option \<times> setup_st" where
  "setup_logPath env fl s =
     (case filepath_Abs (env_wd env) (f_logPath fl) of
        Inl e \<Rightarrow> (Some e, s)
      | Inr p \<Rightarrow>
          (case os_MkdirAll p (shost s) of
             (e, h) \<Rightarrow> (e, s\<lparr>sctx := (sctx s)\<lparr>LogPath := p\<rparr>, shost := h\<rparr>)))"

definition socket_ctx :: "string \<Rightarrow> string \<Rightarrow> cctx \<Rightarrow> cctx" where
  "socket_ctx p name c =
     c\<lparr>SocketPath := p,
       ForwardSocketPath := path_Join [p, name @ ''-podman.sock''],
       SocketNetworkPath := path_Join [p, name @ ''-vfkit-network.sock''],
       SocketInitrdVSockPath := path_Join [p, name @ ''-initrd-vsock.sock''],
       SocketReadyPath := path_Join [p, name @ ''-ready.sock''],
       RestfulSocketPath := path_Join [p, name @ ''-restful.sock''],
       TimeSyncSocketPath := path_Join [p, name @ ''-sync-time.sock''],
       SSHAuthSocketPath := path_Join [p, name @ ''-ssh-auth.sock''],
       Endpoint := ''unix://'' @ path_Join [p, name @ ''-vfkit-network.sock'']\<rparr>"

definition setup_socketPath :: "setup_env \<Rightarrow> flags \<Rightarrow> setup_st \<Rightarrow> goerr option \<times> setup_st" where
  "setup_socketPath env fl s =
     (case filepath_Abs (env_wd env) (f_socketPath fl) of
        Inl e \<Rightarrow> (Some e, s)
      | Inr p \<Rightarrow>
          (let c = socket_ctx p (f_name fl) (sctx s)
           in case os_RemoveAll p (shost s) of
                (Some e, h) \<Rightarrow> (Some e, s\<lparr>sctx := c, shost := h\<rparr>)
              | (None, h) \<Rightarrow> (case os_MkdirAll p h of (e, h') \<Rightarrow> (e, s\<lparr>sctx := c, shost := h'\<rparr>))))"

text \<open>
  The keys: when one of the two files is missing both are removed and made anew; then the two are read. The
  two stats run in a group of their own, of which only the absence of an error matters.
\<close>

definition key_stats :: "string \<Rightarrow> string \<Rightarrow> hostfs \<Rightarrow> goerr option" where
  "key_stats priv pub h =
     fst (group_run (\<lambda>p h. (case os_Stat p h of Inl e \<Rightarrow> Some e | Inr _ \<Rightarrow> None, h)) [priv, pub] h)"

definition ensure_keys :: "setup_env \<Rightarrow> string \<Rightarrow> string \<Rightarrow> string \<Rightarrow> string \<Rightarrow> hostfs \<Rightarrow> goerr option \<times> hostfs" where
  "ensure_keys env p name priv pub h =
     (case key_stats priv pub h of
        None \<Rightarrow> (None, h)
      | Some _ \<Rightarrow> GenerateSSHKey (env_keygen env) p name (snd (os_RemoveAll pub (snd (os_RemoveAll priv h)))))"

definition setup_ssh :: "setup_env \<Rightarrow> flags \<Rightarrow> setup_st \<Rightarrow> goerr option \<times> setup_st" where
  "setup_ssh env fl s =
     (case filepath_Abs (env_wd env) (f_sshKeyPath fl) of
        Inl e \<Rightarrow> (Some e, s)
      | Inr p \<Rightarrow>
          (let priv = path_Join [p, f_name fl];
               pub = path_Join [p, f_name fl @ ''.pub''];
               c1 = (sctx s)\<lparr>SSHKeyPath := p, SSHPrivateKeyPath := priv, SSHPublicKeyPath := pub\<rparr>
           in case os_MkdirAll p (shost s) of
                (Some e, h) \<Rightarrow> (Some e, s\<lparr>sctx := c1, shost := h\<rparr>)
              | (None, h) \<Rightarrow>
                  (case ensure_keys env p (f_name fl) priv pub h of
                     (Some e, h1) \<Rightarrow> (Some e, s\<lparr>sctx := c1, shost := h1\<rparr>)
                   | (None, h1) \<Rightarrow>
                       (case os_ReadFile pub h1 of
                          Inl e \<Rightarrow> (Some e, s\<lparr>sctx := c1, shost := h1\<rparr>)
                        | Inr b \<Rightarrow>
                            (let c2 = c1\<lparr>SSHPublicKey := strings_TrimSpace b\<rparr>
                             in case os_ReadFile priv h1 of
                                  Inl e \<Rightarrow> (Some e, s\<lparr>sctx := c2, shost := h1\<rparr>)
                                | Inr k \<Rightarrow>
                                    (let c3 = c2\<lparr>SSHPrivateKey := strings_TrimSpace k\<rparr>
                                     in case env_parse_key env k of
                                          Inl e \<Rightarrow>
                                            (Some (Wrap ''parse private key error: '' e),
                                             s\<lparr>sctx := c3\<lparr>SSHSigner := None\<rparr>, shost := h1\<rparr>)
                                        | Inr sg \<Rightarrow> (None, s\<lparr>sctx := c3\<lparr>SSHSigner := Some sg\<rparr>, shost := h1\<rparr>)))))))"

definition setup_sshPort :: "setup_env \<Rightarrow> setup_st \<Rightarrow> goerr option \<times> setup_st" where
  "setup_sshPort env s =
     (case FindUsablePort (env_busy env) 2233 of
        (_, Some e) \<Rightarrow> (Some e, s)
      | (port, None) \<Rightarrow> (None, s\<lparr>sctx := (sctx s)\<lparr>SSHPort := port\<rparr>\<rparr>))"

definition target_ctx :: "string \<Rightarrow> flags \<Rightarrow> cctx \<Rightarrow> cctx" where
  "target_ctx p fl c =
     c\<lparr>TargetPath := p,
       VersionsPath := path_Join [p, ''versions.json''],
       KernelPath := path_Join [p, filepath_Base (f_kernelPath fl)],
       InitrdPath := path_Join [p, filepath_Base (f_initrdPath fl)],
       RootfsPath := path_Join [p, filepath_Base (f_rootfsPath fl)],
       DiskDataPath := path_Join [p, ''data.img''],
       DiskTmpPath := path_Join [p, ''tmp.img'']\<rparr>"

definition tmp_size :: nat where
  "tmp_size = 1 * 1024 * 1024 * 1024 * 1024"

text \<open>\<open>target\<close>: \<open>handle\<close> does not panic here (\<open>handle_returns\<close> below), so that branch is not reached.\<close>

definition setup_target :: "setup_env \<Rightarrow> flags \<Rightarrow> setup_st \<Rightarrow> goerr option \<times> setup_st" where
  "setup_target env fl s =
     (case filepath_Abs (env_wd env) (f_targetPath fl) of
        Inl e \<Rightarrow> (Some e, s)
      | Inr p \<Rightarrow>
          (case os_MkdirAll p (shost s) of
             (Some e, h) \<Rightarrow> (Some e, s\<lparr>sctx := (sctx s)\<lparr>TargetPath := p\<rparr>, shost := h\<rparr>)
           | (None, h) \<Rightarrow>
               (let c = target_ctx p fl (sctx s)
                in case newTarget (env_order env) (f_versions fl) p (f_kernelPath fl) (f_initrdPath fl) (f_rootfsPath fl)
                          (DiskDataPath c) (VersionsPath c) (sparams s) h of
                     (Inl e, ps, h1) \<Rightarrow> (Some e, s\<lparr>sctx := c, shost := h1, sparams := ps\<rparr>)
                   | (Inr t, ps, h1) \<Rightarrow>
                       (case handle (env_sched env) (env_wd env) ps t h1 of
                          (Panic, _, h2) \<Rightarrow> (Some (Msg ''panic''), s\<lparr>sctx := c, shost := h2, sparams := ps\<rparr>)
                        | (Ret (Some e), _, h2) \<Rightarrow> (Some e, s\<lparr>sctx := c, shost := h2, sparams := ps\<rparr>)
                        | (Ret None, _, h2) \<Rightarrow>
                            (case os_Stat (DiskTmpPath c) h2 of
                               Inr _ \<Rightarrow> (None, s\<lparr>sctx := c, shost := h2, sparams := ps\<rparr>)
                             | Inl _ \<Rightarrow>
                                 (case CreateSparseFile (DiskTmpPath c) tmp_size h2 of
                                    (e, h3) \<Rightarrow> (e, s\<lparr>sctx := c, shost := h3, sparams := ps\<rparr>)))))))"

datatype setup_step = Basic | LogPathStep | SocketPathStep | SshStep | SshPortStep | TargetStep

fun run_setup :: "setup_env \<Rightarrow> flags \<Rightarrow> setup_step \<Rightarrow> setup_st \<Rightarrow> goerr option \<times> setup_st" where
  "run_setup env fl Basic = basic env fl"
| "run_setup env fl LogPathStep = setup_logPath env fl"
| "run_setup env fl SocketPathStep = setup_socketPath env fl"
| "run_setup env fl SshStep = setup_ssh env fl"
| "run_setup env fl SshPortStep = setup_sshPort env"
| "run_setup env fl TargetStep = setup_target env fl"

definition PreSetup :: "setup_env \<Rightarrow> flags \<Rightarrow> bool \<Rightarrow> setup_st \<Rightarrow> goerr option \<times> setup_st" where
  "PreSetup env fl basic_first s =
     group_run (run_setup env fl) (if basic_first then [Basic, LogPathStep] else [LogPathStep, Basic]) s"

definition setup_steps :: "setup_step list" where
  "setup_steps = [SocketPathStep, SshStep, SshPortStep, TargetStep]"

text \<open>\<open>Setup\<close>, the steps taken in the given order, a permutation of \<open>setup_steps\<close>.\<close>

definition cli_Setup :: "setup_env \<Rightarrow> flags \<Rightarrow> setup_step list \<Rightarrow> setup_st \<Rightarrow> goerr option \<times> setup_st" where
  "cli_Setup env fl order s = group_run (run_setup env fl) order s"

section \<open>Validation and sizes\<close>

lemma Validate_iff:
  "Validate fl = None \<longleftrightarrow>
     [] \<notin> {f_name fl, f_logPath fl, f_socketPath fl, f_sshKeyPath fl, f_kernelPath fl, f_initrdPath fl, f_rootfsPath fl,
            f_targetPath fl, f_versions fl} \<and> f_cpus fl \<noteq> 0 \<and> f_memory fl \<noteq> 0"
  by (auto simp: Validate_def)

lemma basic_memory: "MemoryBytes (sctx (snd (basic env fl s))) = f_memory fl * 1024 * 1024"
  by (simp add: basic_def Let_def split: prod.split option.split sum.split)

lemma unat_mega: "unat (w * 1024 * 1024 :: 64 word) = unat w * 2 ^ 20 mod 2 ^ 64"
  by (simp add: unat_word_ariths mod_simps mult.commute)

text \<open>
  C34: The size of the memory. The context's byte count is the given number of megabytes times \<open>2 ^ 20\<close> when
  that number is below \<open>2 ^ 44\<close>, and from there on it is not: the 64-bit product wraps around. The check of the
  flags only asks for a number other than 0, so a valid command line can give a machine of 0 bytes.
\<close>

theorem memory_bytes:
  "unat (MemoryBytes (sctx (snd (basic env fl s)))) = unat (f_memory fl) * 2 ^ 20 \<longleftrightarrow> unat (f_memory fl) < 2 ^ 44"
proof -
  have "unat (f_memory fl) * 2 ^ 20 mod 2 ^ 64 = unat (f_memory fl) * 2 ^ 20 \<longleftrightarrow> unat (f_memory fl) * 2 ^ 20 < 2 ^ 64"
    by (metis mod_less mod_less_divisor zero_less_numeral zero_less_power)
  then show ?thesis unfolding basic_memory unat_mega by simp
qed

section \<open>The lock file\<close>

text \<open>
  One lock file per executable and machine name: the lock files of two machines of one executable differ
  exactly when their names differ, and the lock files of two executables can only be equal when the digests of
  their paths are.
\<close>

theorem lock_file_inject:
  "lock_file e n = lock_file e' n' \<longleftrightarrow> md5_hex e = md5_hex e' \<and> n = n'"
  using length_md5_hex [of e] length_md5_hex [of e'] by (auto simp: lock_file_def)

section \<open>The sockets\<close>

definition socket_suffixes :: "string list" where
  "socket_suffixes = [''-podman.sock'', ''-vfkit-network.sock'', ''-initrd-vsock.sock'', ''-ready.sock'', ''-restful.sock'',
     ''-sync-time.sock'', ''-ssh-auth.sock'']"

definition socket_paths :: "cctx \<Rightarrow> string list" where
  "socket_paths c = [ForwardSocketPath c, SocketNetworkPath c, SocketInitrdVSockPath c, SocketReadyPath c,
     RestfulSocketPath c, TimeSyncSocketPath c, SSHAuthSocketPath c]"

lemma socket_suffix_plain: "u \<in> set socket_suffixes \<Longrightarrow> plain_suffix u"
  by (auto simp: socket_suffixes_def plain_suffix_def suffix_def Cons_eq_append_conv)

lemma socket_paths_ctx: "socket_paths (socket_ctx p name c) = map (\<lambda>u. path_Join [p, name @ u]) socket_suffixes"
  by (simp add: socket_paths_def socket_ctx_def socket_suffixes_def)

lemma socket_paths_distinct: "distinct (socket_paths (socket_ctx p name c))"
proof -
  have "distinct socket_suffixes" by (simp add: socket_suffixes_def)
  then show ?thesis
    unfolding socket_paths_ctx distinct_map inj_on_def
    using path_Join_plain_inject [OF socket_suffix_plain socket_suffix_plain] by blast
qed

section \<open>Steps in any order\<close>

text \<open>What the steps leave alone.\<close>

lemma socket_fields_kept:
  "j \<noteq> SocketPathStep \<Longrightarrow> socket_paths (sctx (snd (run_setup env fl j s))) = socket_paths (sctx s) \<and>
     SocketPath (sctx (snd (run_setup env fl j s))) = SocketPath (sctx s) \<and>
     Endpoint (sctx (snd (run_setup env fl j s))) = Endpoint (sctx s)"
proof (cases j)
  case Basic
  then show ?thesis by (simp add: basic_def socket_paths_def Let_def split: prod.split option.split sum.split)
next
  case LogPathStep
  then show ?thesis by (simp add: setup_logPath_def socket_paths_def split: prod.split sum.split)
next
  case SshStep
  then show ?thesis by (simp add: setup_ssh_def socket_paths_def Let_def split: prod.split option.split sum.split)
next
  case SshPortStep
  then show ?thesis by (simp add: setup_sshPort_def socket_paths_def split: prod.split option.split)
next
  case TargetStep
  then show ?thesis
    by (simp add: setup_target_def target_ctx_def socket_paths_def Let_def split: prod.split option.split sum.split outcome.split)
qed simp

lemma socket_step_ok:
  assumes "setup_socketPath env fl s = (None, s')"
  shows "\<exists>p c. filepath_Abs (env_wd env) (f_socketPath fl) = Inr p \<and> sctx s' = socket_ctx p (f_name fl) c"
  using assms by (auto simp: setup_socketPath_def Let_def split: sum.splits prod.splits option.splits)

definition sockets_set :: "setup_env \<Rightarrow> flags \<Rightarrow> setup_st \<Rightarrow> bool" where
  "sockets_set env fl s =
     (\<exists>p. filepath_Abs (env_wd env) (f_socketPath fl) = Inr p \<and> SocketPath (sctx s) = p \<and>
        socket_paths (sctx s) = map (\<lambda>u. path_Join [p, f_name fl @ u]) socket_suffixes \<and>
        Endpoint (sctx s) = ''unix://'' @ SocketNetworkPath (sctx s))"

lemma network_of_sockets: "socket_paths c = socket_paths c' \<Longrightarrow> SocketNetworkPath c = SocketNetworkPath c'"
  by (simp add: socket_paths_def)

lemma sockets_set_socket: "setup_socketPath env fl s = (None, s') \<Longrightarrow> sockets_set env fl s'"
  using socket_step_ok [of env fl s s'] socket_paths_ctx by (fastforce simp: sockets_set_def socket_ctx_def)

lemma sockets_set_kept: "sockets_set env fl s \<Longrightarrow> sockets_set env fl (snd (run_setup env fl j s))"
proof (cases "j = SocketPathStep")
  case False
  assume "sockets_set env fl s"
  with socket_fields_kept [OF False, of env fl s] network_of_sockets show ?thesis
    unfolding sockets_set_def by metis
next
  case True
  assume "sockets_set env fl s"
  then obtain p where "filepath_Abs (env_wd env) (f_socketPath fl) = Inr p" by (auto simp: sockets_set_def)
  then show ?thesis
    using True socket_paths_ctx [of p "f_name fl" "sctx s"]
    by (auto simp: sockets_set_def setup_socketPath_def Let_def socket_ctx_def split: prod.split option.split)
qed

definition port_set :: "setup_env \<Rightarrow> setup_st \<Rightarrow> bool" where
  "port_set env s =
     (2233 \<le> SSHPort (sctx s) \<and> SSHPort (sctx s) < 2333 \<and> portOccupied (env_busy env) (SSHPort (sctx s)) = None)"

lemma port_set_port: "setup_sshPort env s = (None, s') \<Longrightarrow> port_set env s'"
  using FindUsablePort_spec [where busy = "env_busy env" and start = 2233]
  by (auto simp: setup_sshPort_def port_set_def split: prod.splits option.splits)

lemma SSHPort_kept:
  "j \<noteq> SshPortStep \<Longrightarrow> SSHPort (sctx (snd (run_setup env fl j s))) = SSHPort (sctx s)"
  by (cases j) (simp_all add: basic_def setup_logPath_def setup_socketPath_def socket_ctx_def setup_ssh_def setup_target_def
      target_ctx_def Let_def split: prod.split option.split sum.split outcome.split)

lemma port_set_kept: "port_set env s \<Longrightarrow> port_set env (snd (run_setup env fl j s))"
proof (cases "j = SshPortStep")
  case True
  assume "port_set env s"
  with True show ?thesis
    using port_set_port [of env s] by (auto simp: setup_sshPort_def split: prod.splits option.splits)
qed (simp add: port_set_def SSHPort_kept)

text \<open>The keys of the context: the signer is the parsed private key, and the two key texts have no outer white space.\<close>

definition keys_set :: "setup_env \<Rightarrow> flags \<Rightarrow> setup_st \<Rightarrow> bool" where
  "keys_set env fl s =
     (\<exists>p k sg. filepath_Abs (env_wd env) (f_sshKeyPath fl) = Inr p \<and> SSHKeyPath (sctx s) = p \<and>
        SSHPrivateKeyPath (sctx s) = path_Join [p, f_name fl] \<and> SSHPublicKeyPath (sctx s) = path_Join [p, f_name fl @ ''.pub''] \<and>
        env_parse_key env k = Inr sg \<and> SSHSigner (sctx s) = Some sg \<and> SSHPrivateKey (sctx s) = strings_TrimSpace k \<and>
        trimmed (SSHPublicKey (sctx s)))"

lemma keys_set_ssh: "setup_ssh env fl s = (None, s') \<Longrightarrow> keys_set env fl s'"
  by (auto simp: setup_ssh_def keys_set_def Let_def split: prod.splits option.splits sum.splits)

lemma ssh_fields_kept:
  "j \<noteq> SshStep \<Longrightarrow> SSHKeyPath (sctx (snd (run_setup env fl j s))) = SSHKeyPath (sctx s) \<and>
     SSHPrivateKeyPath (sctx (snd (run_setup env fl j s))) = SSHPrivateKeyPath (sctx s) \<and>
     SSHPublicKeyPath (sctx (snd (run_setup env fl j s))) = SSHPublicKeyPath (sctx s) \<and>
     SSHSigner (sctx (snd (run_setup env fl j s))) = SSHSigner (sctx s) \<and>
     SSHPrivateKey (sctx (snd (run_setup env fl j s))) = SSHPrivateKey (sctx s) \<and>
     SSHPublicKey (sctx (snd (run_setup env fl j s))) = SSHPublicKey (sctx s)"
  by (cases j) (simp_all add: basic_def setup_logPath_def setup_socketPath_def socket_ctx_def setup_sshPort_def setup_target_def
      target_ctx_def Let_def split: prod.split option.split sum.split outcome.split)

lemma keys_set_kept: "j \<noteq> SshStep \<Longrightarrow> keys_set env fl s \<Longrightarrow> keys_set env fl (snd (run_setup env fl j s))"
  using ssh_fields_kept [of j env fl s] by (simp add: keys_set_def)

text \<open>The files of the target directory.\<close>

definition files_set :: "setup_env \<Rightarrow> flags \<Rightarrow> setup_st \<Rightarrow> bool" where
  "files_set env fl s =
     (\<exists>p. filepath_Abs (env_wd env) (f_targetPath fl) = Inr p \<and> TargetPath (sctx s) = p \<and>
        map (\<lambda>f. f (sctx s)) [VersionsPath, KernelPath, InitrdPath, RootfsPath, DiskDataPath, DiskTmpPath] =
        map (\<lambda>n. path_Join [p, n]) [''versions.json'', filepath_Base (f_kernelPath fl), filepath_Base (f_initrdPath fl),
          filepath_Base (f_rootfsPath fl), ''data.img'', ''tmp.img''])"

lemma files_set_target: "setup_target env fl s = (None, s') \<Longrightarrow> files_set env fl s'"
  by (auto simp: setup_target_def files_set_def target_ctx_def Let_def split: prod.splits option.splits sum.splits outcome.splits)

lemma target_fields_kept:
  "j \<noteq> TargetStep \<Longrightarrow> TargetPath (sctx (snd (run_setup env fl j s))) = TargetPath (sctx s) \<and>
     VersionsPath (sctx (snd (run_setup env fl j s))) = VersionsPath (sctx s) \<and>
     KernelPath (sctx (snd (run_setup env fl j s))) = KernelPath (sctx s) \<and>
     InitrdPath (sctx (snd (run_setup env fl j s))) = InitrdPath (sctx s) \<and>
     RootfsPath (sctx (snd (run_setup env fl j s))) = RootfsPath (sctx s) \<and>
     DiskDataPath (sctx (snd (run_setup env fl j s))) = DiskDataPath (sctx s) \<and>
     DiskTmpPath (sctx (snd (run_setup env fl j s))) = DiskTmpPath (sctx s)"
  by (cases j) (simp_all add: basic_def setup_logPath_def setup_socketPath_def socket_ctx_def setup_sshPort_def setup_ssh_def
      Let_def split: prod.split option.split sum.split)

lemma files_set_kept: "j \<noteq> TargetStep \<Longrightarrow> files_set env fl s \<Longrightarrow> files_set env fl (snd (run_setup env fl j s))"
  using target_fields_kept [of j env fl s] by (simp add: files_set_def)

lemma cli_Setup_sets:
  assumes "set order = set setup_steps" and "distinct order" and "cli_Setup env fl order s = (None, s')"
  shows "sockets_set env fl s'" and "port_set env s'" and "keys_set env fl s'" and "files_set env fl s'"
proof -
  note r = assms(3) [unfolded cli_Setup_def]
  have m: "SocketPathStep \<in> set order" "SshStep \<in> set order" "SshPortStep \<in> set order" "TargetStep \<in> set order"
    unfolding assms(1) by (simp_all add: setup_steps_def)
  show "sockets_set env fl s'"
    by (rule group_run_establish [OF r m(1) _ _ assms(2)]) (simp_all add: sockets_set_socket sockets_set_kept)
  show "port_set env s'"
    by (rule group_run_establish [OF r m(3) _ _ assms(2)]) (simp_all add: port_set_port port_set_kept)
  show "keys_set env fl s'"
    by (rule group_run_establish [OF r m(2) _ _ assms(2)]) (simp_all add: keys_set_ssh keys_set_kept)
  show "files_set env fl s'"
    by (rule group_run_establish [OF r m(4) _ _ assms(2)]) (simp_all add: files_set_target files_set_kept)
qed


section \<open>The socket directory\<close>

lemma not_ancestor: "under p q \<Longrightarrow> q \<notin> set (ancestors p @ [p])"
proof
  assume "under p q" "q \<in> set (ancestors p @ [p])"
  then have "length p < length q" by (metis length_append length_take list.size(3,4) min.bounded_iff
        not_less_eq_eq add_Suc_right add.right_neutral le_refl not_le under_def)
  moreover have "length q \<le> length p" using \<open>q \<in> set (ancestors p @ [p])\<close> by (auto simp: ancestors_def)
  ultimately show False by simp
qed

text \<open>
  The socket directory starts empty: after a successful \<open>socketPath\<close> the directory exists and no path below
  it does, so no socket file of an earlier run is in the way of listening.
\<close>

theorem socketPath_fresh:
  assumes "setup_socketPath env fl s = (None, s')" and "SocketPath (sctx s') \<noteq> []"
  shows "names (shost s') (SocketPath (sctx s')) = Some Dir \<and>
    (\<forall>q. under (SocketPath (sctx s')) q \<longrightarrow> names (shost s') q = None)"
proof -
  obtain p h h' where p: "filepath_Abs (env_wd env) (f_socketPath fl) = Inr p"
    and rm: "os_RemoveAll p (shost s) = (None, h)" and mk: "os_MkdirAll p h = (None, h')"
    and s': "s' = s\<lparr>sctx := socket_ctx p (f_name fl) (sctx s), shost := h'\<rparr>"
    using assms(1) by (auto simp: setup_socketPath_def Let_def split: sum.splits prod.splits option.splits)
  have sp: "SocketPath (sctx s') = p" "shost s' = h'" by (simp_all add: s' socket_ctx_def)
  have h: "h = (shost s)\<lparr>names := (\<lambda>q. if q = p \<or> under p q then None else names (shost s) q)\<rparr>"
    using rm assms(2) sp by (auto simp: os_RemoveAll_def split: option.splits if_splits)
  have h': "h' = h\<lparr>names := (\<lambda>q. if q \<in> set (ancestors p @ [p]) then Some Dir else names h q)\<rparr>"
    using mk by (simp add: os_MkdirAll_def split: option.splits if_splits)
  show ?thesis using not_ancestor [of p] unfolding sp by (simp add: h' h)
qed

section \<open>Shared directories\<close>

text \<open>The pairs of a list of items, if each is two parts with a colon between.\<close>

definition share_pair :: "string \<Rightarrow> (string \<times> string) option" where
  "share_pair item = (case strings_Split item (CHR '':'') of [k, d] \<Rightarrow> Some (k, d) | _ \<Rightarrow> None)"

text \<open>
  C32: The list of shared directories is accepted exactly when each of its items is a name and a path with one colon
  between them and each path is a directory of the host; then every name is bound to the directory of its last item.
\<close>

theorem share_dirs_correct:
  "case share_dirs items h m of (err, m') \<Rightarrow>
     (err = None \<longleftrightarrow> (\<forall>i \<in> set items. \<exists>k d. share_pair i = Some (k, d) \<and> os_Stat d h = Inr Dir)) \<and>
     (err = None \<longrightarrow> m' = m ++ map_of (rev (List.map_filter share_pair items)))"
proof (induction items arbitrary: m)
  case (Cons item items)
  show ?case
  proof (cases "share_pair item")
    case None
    then show ?thesis by (auto simp: share_pair_def split: list.splits)
  next
    case (Some kd)
    then obtain k d where kd: "share_pair item = Some (k, d)" "strings_Split item (CHR '':'') = [k, d]"
      by (cases kd) (auto simp: share_pair_def split: list.splits)
    show ?thesis
    proof (cases "os_Stat d h = Inr Dir")
      case True
      obtain err m' where r: "share_dirs items h (m(k \<mapsto> d)) = (err, m')" by (rule prod.exhaust)
      have ih: "(err = None \<longleftrightarrow> (\<forall>i \<in> set items. \<exists>k d. share_pair i = Some (k, d) \<and> os_Stat d h = Inr Dir)) \<and>
          (err = None \<longrightarrow> m' = m(k \<mapsto> d) ++ map_of (rev (List.map_filter share_pair items)))"
        using Cons.IH [of "m(k \<mapsto> d)"] unfolding r prod.case .
      have "m(k \<mapsto> d) ++ map_of (rev ps) = m ++ map_of (rev ((k, d) # ps))" for ps :: "(string \<times> string) list"
        by (auto simp: map_add_def fun_eq_iff split: option.split)
      moreover have "List.map_filter share_pair (item # items) = (k, d) # List.map_filter share_pair items"
        using kd(1) by (simp add: List.map_filter_def)
      moreover have "share_dirs (item # items) h m = (err, m')" using kd(2) True r by simp
      ultimately show ?thesis using ih True kd(1) by (simp del: share_dirs.simps)
    next
      case False
      then show ?thesis using kd by (auto split: sum.splits)
    qed
  qed
qed (simp add: List.map_filter_def)

section \<open>The command line\<close>

text \<open>The values of the flags, by name.\<close>

definition flag_list :: "flags \<Rightarrow> (string \<times> flag_val) list" where
  "flag_list fl =
     [(''name'', VString (f_name fl)),
      (''log-path'', VString (f_logPath fl)),
      (''socket-path'', VString (f_socketPath fl)),
      (''ssh-key-path'', VString (f_sshKeyPath fl)),
      (''cpus'', VUint (f_cpus fl)),
      (''memory'', VUint (f_memory fl)),
      (''kernel-path'', VString (f_kernelPath fl)),
      (''initrd-path'', VString (f_initrdPath fl)),
      (''rootfs-path'', VString (f_rootfsPath fl)),
      (''target-path'', VString (f_targetPath fl)),
      (''versions'', VString (f_versions fl)),
      (''event-socket-path'', VString (f_eventSocketPath fl)),
      (''cli'', VBool (f_cliMode fl)),
      (''bind-pid'', VInt (f_bindPID fl)),
      (''power-save-mode'', VBool (f_powerSaveMode fl)),
      (''kernel-debug'', VBool (f_kernelDebug fl)),
      (''extend-share-dir'', VString (f_extendShareDir fl))]"

lemma cli_names: "list_all (\<lambda>(n, k, f). name_ok n) cli_flags"
  by code_simp

lemma flag_list_kinds: "list_all (\<lambda>(n, v). cli_formal n = Some (kind_of v)) (flag_list fl)"
  by (simp add: flag_list_def cli_formal_def cli_flags_def kind_of_def)

lemma flag_list_keys: "map fst (flag_list fl) = map fst cli_flags" "distinct (map fst cli_flags)"
  by (simp_all add: flag_list_def cli_flags_def)

lemma flag_list_put:
  "list_all (\<lambda>(m, k, f). kind_of v = k \<longrightarrow> flag_list (f v fl) = map (\<lambda>(n, w). (n, if n = m then v else w)) (flag_list fl)) cli_flags"
  unfolding cli_flags_def flag_list_def
  by (cases v) (simp_all add: kind_of_def StringVar_def UintVar_def BoolVar_def IntVar_def)

lemma flag_list_inject: "flag_list fl = flag_list fl' \<Longrightarrow> fl = fl'"
  by (simp add: flag_list_def)

interpretation cli_store: flag_store cli_formal cli_put "\<lambda>n fl. map_of (flag_list fl) n"
proof
  fix n k assume "cli_formal n = Some k"
  then show "name_ok n" using cli_names by (auto simp: cli_formal_def list_all_iff dest: map_of_SomeD)
next
  fix m v n s assume "cli_formal m = Some (kind_of v)"
  then obtain f where f: "map_of cli_flags m = Some (kind_of v, f)" by (auto simp: cli_formal_def)
  then have m: "(m, kind_of v, f) \<in> set cli_flags" by (rule map_of_SomeD)
  then have "m \<in> fst ` set (flag_list s)" using flag_list_keys(1) [of s] by (metis image_eqI list.set_map fst_conv)
  then have "map_of (flag_list s) m \<noteq> None" by (simp add: map_of_eq_None_iff)
  moreover have "flag_list (f v s) = map (\<lambda>(n, w). (n, if n = m then v else w)) (flag_list s)"
    using m flag_list_put [of v s] by (fastforce simp: list_all_iff)
  ultimately show "map_of (flag_list (cli_put m v s)) n = (if n = m then Some v else map_of (flag_list s) n)"
    by (auto simp: cli_put_def f map_of_put)
next
  fix n s v assume "map_of (flag_list s) n = Some v"
  then show "cli_formal n = Some (kind_of v)" using flag_list_kinds [of s] by (auto simp: list_all_iff dest: map_of_SomeD)
next
  fix s t :: flags assume "\<And>n. map_of (flag_list s) n = map_of (flag_list t) n"
  then have "map_of (flag_list s) = map_of (flag_list t)" by (rule ext)
  then show "s = t"
    using same_keys_map_of [of "flag_list s" "flag_list t"] flag_list_keys by (intro flag_list_inject) simp
qed

text \<open>
  C18: The command line is read as it was meant. If the arguments give flags the values of \<open>fl\<close>, each in one of the styles of the package, in any order and
  possibly several times, and the flags that are not given have their default there, then \<open>Parse\<close> yields \<open>fl\<close> and no argument is left; a process id has to be a 64-bit number. If a
  flag that the program does not define follows, the program exits with the code 2.
\<close>

theorem cli_Parse_given:
  assumes "- (2 ^ 63) \<le> f_bindPID fl" and "f_bindPID fl < 2 ^ 63"
    and "set (map (\<lambda>(two, apart, n, v). (n, v)) as) \<subseteq> set (flag_list fl)"
    and "set (flag_list fl) - set (flag_list default_flags) \<subseteq> set (map (\<lambda>(two, apart, n, v). (n, v)) as)"
  shows "cli_Parse (concat (map (\<lambda>(two, apart, n, v). flag_args two apart n v) as)) = Parsed fl [] \<and>
    (name_ok x \<longrightarrow> cli_formal x = None \<longrightarrow> x \<notin> {''help'', ''h''} \<longrightarrow>
     cli_Parse (concat (map (\<lambda>(two, apart, n, v). flag_args two apart n v) as) @ (''--'' @ x) # rest) =
       FlagExit 2 (''flag provided but not defined: -'' @ x))"
proof -
  have d: "distinct (map fst (flag_list f))" for f using flag_list_keys by simp
  have "list_all (\<lambda>(n, v). val_ok v) (flag_list fl)" using assms(1,2) by (simp add: flag_list_def val_ok_def)
  then have w: "list_all (cli_store.wanted fl) as"
    using assms(3) by (fastforce simp: list_all_iff cli_store.wanted_def map_of_eq_Some_iff [OF d])
  have "n \<in> (fst \<circ> snd \<circ> snd) ` set as" if "map_of (flag_list fl) n \<noteq> map_of (flag_list default_flags) n" for n
  proof -
    have "n \<in> set (map fst (flag_list fl))" using that flag_list_keys(1) by (metis map_of_eq_None_iff list.set_map)
    then obtain v where "(n, v) \<in> set (flag_list fl)" by auto
    moreover then have "(n, v) \<notin> set (flag_list default_flags)" using that d by (metis map_of_is_SomeI)
    ultimately show ?thesis using assms(4) by force
  qed
  note p = cli_store.parse_wanted [OF w this]
  show ?thesis using p [where rest = "[]"] p [where rest = "(''--'' @ x) # rest"] flag_Parse_undefined [of x cli_formal cli_put rest fl]
    by (simp add: cli_Parse_def)
qed

theorem cli_Parse_given_witness:
  "cli_Parse [''-name=vm'', ''--cpus'', ''4'', ''--cli'', ''--name'', ''vm''] = Parsed (default_flags\<lparr>f_name := ''vm'', f_cpus := 4, f_cliMode := True\<rparr>) []"
proof -
  let ?fl = "default_flags\<lparr>f_name := ''vm'', f_cpus := 4, f_cliMode := True\<rparr>"
  let ?as = "[(False, False, ''name'', VString ''vm''), (True, True, ''cpus'', VUint 4), (True, True, ''cli'', VBool True), (True, True, ''name'', VString ''vm'')]"
  have "set (map (\<lambda>(two, apart, n, v). (n, v)) ?as) \<subseteq> set (flag_list ?fl)"
    and "set (flag_list ?fl) - set (flag_list default_flags) \<subseteq> set (map (\<lambda>(two, apart, n, v). (n, v)) ?as)"
    by (auto simp: flag_list_def default_flags_def)
  moreover have "digit_char 4 = CHR ''4''" by code_simp
  ultimately show ?thesis using cli_Parse_given [of ?fl ?as]
    by (simp add: default_flags_def flag_args_def flag_text_def kind_of_def nat_digits.simps)
qed

section \<open>A command line\<close>

definition demo_flags :: flags where
  "demo_flags = default_flags\<lparr>f_name := ''vm'', f_socketPath := ''/s'', f_sshKeyPath := ''/k'', f_targetPath := ''/t'',
     f_kernelPath := ''/w/k'', f_initrdPath := ''/w/i'', f_rootfsPath := ''/w/r'',
     f_versions := ''kernel=1,initrd=1,rootfs=1,data=1''\<rparr>"

definition demo_env :: setup_env where
  "demo_env = \<lparr>env_wd = Inr ''/'', env_executable = Inr ''/ovm'', env_symlinks = Inr, env_busy = (\<lambda>_. None),
     env_keygen = (\<lambda>_. Ran id None), env_parse_key = Inr, env_order = version_keys, env_sched = []\<rparr>"

definition demo_setup :: setup_st where
  "demo_setup = \<lparr>sctx = cli_Init,
     shost = host_with [(''/k/vm'', ''private''), (''/k/vm.pub'', ''public''), (''/t/k'', []), (''/t/i'', []), (''/t/r'', []),
       (''/t/data.img'', []), (''/t/tmp.img'', []), (''/s/old.sock'', []),
       (''/t/versions.json'', json_print (versions_json \<lparr>Kernel = ''1'', Initrd = ''1'', Rootfs = ''1'', Data = ''1'',
          vjpath = [], needUpdateJSON = False\<rparr>))] [],
     sparams = versionsParams0\<rparr>"

text \<open>The run of the steps: the target is up to date, and the other steps see nothing of the context.\<close>

lemma run_setup_cong:
  "shost s = shost s' \<Longrightarrow> j \<noteq> TargetStep \<Longrightarrow>
     fst (run_setup env fl j s) = fst (run_setup env fl j s') \<and>
     shost (snd (run_setup env fl j s)) = shost (snd (run_setup env fl j s'))"
  by (cases j) (simp_all add: basic_def setup_logPath_def setup_socketPath_def setup_ssh_def setup_sshPort_def Let_def
      split: prod.split option.split sum.split)

definition demo_dir :: hostfs where
  "demo_dir = snd (os_MkdirAll ''/t'' (shost demo_setup))"

definition demo_new :: "targetContext res \<times> (string \<Rightarrow> string option) \<times> hostfs" where
  "demo_new = newTarget version_keys (f_versions demo_flags) ''/t'' ''/w/k'' ''/w/i'' ''/w/r'' ''/t/data.img'' ''/t/versions.json''
     versionsParams0 demo_dir"

lemma demo_new_facts:
  "(case demo_new of (Inr t, ps, h) \<Rightarrow> list_all (\<lambda>src. \<not> needs ps t h src) (srcPaths t) | _ \<Rightarrow> False)"
  "(case demo_new of (Inr t, ps, h) \<Rightarrow> target_sep (Inr ''/'') t \<and> \<not> needUpdateJSON (tversions t) | _ \<Rightarrow> False)"
  by code_simp+

lemma newTarget_host:
  assumes "newTarget order versions tp k i r d vp ps h = (Inr t, ps', h')"
    and "os_ReadFile vp h = Inr (json_print (versions_json v))"
  shows "h' = h"
  using assms
  by (auto simp: newTarget_def newVersionsJSON_def versions_read_def versions_unmarshal_marshal Let_def
      split: prod.splits sum.splits option.splits)

lemma demo_target_ok:
  "\<exists>s1. setup_target demo_env demo_flags demo_setup = (None, s1) \<and> shost s1 = demo_dir"
proof -
  obtain r ps h where n: "demo_new = (r, ps, h)" by (rule prod_cases3)
  note f = demo_new_facts [unfolded n prod.case]
  obtain t where t: "r = Inr t" using f(1) by (cases r) simp_all
  have "content demo_dir ''/t/versions.json'' = Some (file_of (json_print (versions_json
      \<lparr>Kernel = ''1'', Initrd = ''1'', Rootfs = ''1'', Data = ''1'', vjpath = [], needUpdateJSON = False\<rparr>)))"
    and re: "refuse demo_dir = (\<lambda>_ _. None)"
    by (simp_all add: demo_dir_def demo_setup_def os_MkdirAll_def host_with_def content_def ancestors_def is_nondir_def)
  then have "os_ReadFile ''/t/versions.json'' demo_dir = Inr (json_print (versions_json
      \<lparr>Kernel = ''1'', Initrd = ''1'', Rootfs = ''1'', Data = ''1'', vjpath = [], needUpdateJSON = False\<rparr>))"
    using os_ReadFile_content [of demo_dir "''/t/versions.json''"] by (simp del: json_print.simps)
  then have h: "h = demo_dir" using newTarget_host n t unfolding demo_new_def by blast
  have wf: "fs_wf demo_dir"
    unfolding demo_dir_def by (rule os_MkdirAll_wf) (simp add: demo_setup_def)
  have "\<exists>v. handle [] (Inr ''/'') ps t demo_dir = (Ret None, v, demo_dir)"
    using f t h handle_nothing [of "Inr ''/''" t demo_dir ps "[]"] wf by (auto simp: list_all_iff)
  then obtain v where v: "handle [] (Inr ''/'') ps t demo_dir = (Ret None, v, demo_dir)" by blast
  have p: "filepath_Abs (Inr ''/'') ''/t'' = Inr ''/t''" "path_Join [''/t'', ''versions.json''] = ''/t/versions.json''"
    "path_Join [''/t'', ''data.img''] = ''/t/data.img''" "path_Join [''/t'', ''tmp.img''] = ''/t/tmp.img''"
    "fst (os_MkdirAll ''/t'' (shost demo_setup)) = None" "is_ok (os_Stat ''/t/tmp.img'' demo_dir)"
    by code_simp+
  then have mk: "os_MkdirAll ''/t'' (shost demo_setup) = (None, demo_dir)"
    unfolding demo_dir_def by (metis prod.collapse)
  have e: "env_wd demo_env = Inr ''/''" "env_order demo_env = version_keys" "env_sched demo_env = []"
    "f_targetPath demo_flags = ''/t''" "f_kernelPath demo_flags = ''/w/k''" "f_initrdPath demo_flags = ''/w/i''"
    "f_rootfsPath demo_flags = ''/w/r''" "sparams demo_setup = versionsParams0"
    by (simp_all add: demo_env_def demo_flags_def default_flags_def demo_setup_def)
  obtain n' where st: "os_Stat ''/t/tmp.img'' demo_dir = Inr n'" using p(6) is_okE by blast
  show ?thesis
    unfolding setup_target_def e p(1) sum.case mk prod.case option.case Let_def target_ctx_def
    using n [unfolded demo_new_def t h] v st by (simp add: p)
qed

lemma demo_setup_ok: "\<exists>s'. cli_Setup demo_env demo_flags [TargetStep, SshStep, SocketPathStep, SshPortStep] demo_setup = (None, s')"
proof -
  let ?run = "run_setup demo_env demo_flags" and ?d = "demo_setup\<lparr>shost := demo_dir\<rparr>"
  obtain s1 where 1: "?run TargetStep demo_setup = (None, s1)" "shost s1 = demo_dir" using demo_target_ok by auto
  obtain e2 s2 where 2: "?run SshStep s1 = (e2, s2)" by (rule prod.exhaust)
  have "fst (?run SshStep ?d) = None" by code_simp
  then have "e2 = None" using run_setup_cong [of s1 ?d SshStep] 1(2) 2 by (metis fst_conv setup_step.distinct(27) setup_st.select_convs(2) setup_st.surjective setup_st.update_convs(2))
  moreover obtain e3 s3 where 3: "?run SocketPathStep s2 = (e3, s3)" by (rule prod.exhaust)
  moreover have "e3 = None"
  proof -
    have "fst (?run SocketPathStep (snd (?run SshStep ?d))) = None" by code_simp
    moreover have "shost s2 = shost (snd (?run SshStep ?d))"
      using run_setup_cong [of s1 ?d SshStep demo_env demo_flags] 1(2) 2 by simp
    ultimately show ?thesis using run_setup_cong [of s2 "snd (?run SshStep ?d)" SocketPathStep demo_env demo_flags] 3 by simp
  qed
  moreover obtain e4 s4 where 4: "?run SshPortStep s3 = (e4, s4)" by (rule prod.exhaust)
  moreover have "e4 = None"
  proof -
    have "FindUsablePort (\<lambda>_. None) 2233 = (2233, None)"
      by (simp add: FindUsablePort_def find_port_loop.simps portOccupied_def)
    with 4 show ?thesis by (auto simp: setup_sshPort_def demo_env_def)
  qed
  ultimately show ?thesis
    using 1 2 by (simp add: cli_Setup_def group_run_eq run_job_def gerr_group_return zero_group_def del: run_setup.simps)
qed


theorem socketPath_fresh_witness:
  "\<exists>s'. setup_socketPath demo_env demo_flags demo_setup = (None, s') \<and> names (shost s') ''/s'' = Some Dir \<and>
     names (shost s') ''/s/old.sock'' = None"
proof -
  have "fst (setup_socketPath demo_env demo_flags demo_setup) = None" by code_simp
  then obtain s' where r: "setup_socketPath demo_env demo_flags demo_setup = (None, s')" by (metis prod.collapse)
  have "SocketPath (sctx (snd (setup_socketPath demo_env demo_flags demo_setup))) = ''/s''" by code_simp
  then have "SocketPath (sctx s') = ''/s''" using r by simp
  moreover have "under ''/s'' ''/s/old.sock''" by code_simp
  ultimately show ?thesis using socketPath_fresh [OF r] r by auto
qed

theorem share_dirs_correct_witness:
  "\<exists>m. share_dirs [''tmp:/tmp'', ''var:/var''] (host_with [] [''/tmp'', ''/var'']) (\<lambda>_. None) = (None, m) \<and> m ''var'' = Some ''/var''"
proof -
  let ?i = "[''tmp:/tmp'', ''var:/var'']" and ?h = "host_with [] [''/tmp'', ''/var'']"
  obtain e m where r: "share_dirs ?i ?h (\<lambda>_. None) = (e, m)" by (rule prod.exhaust)
  have "fst (share_dirs ?i ?h (\<lambda>_. None)) = None" by code_simp
  moreover have "map_of (rev (List.map_filter share_pair ?i)) ''var'' = Some ''/var''" by code_simp
  ultimately show ?thesis
    using share_dirs_correct [of ?i ?h "\<lambda>_. None"] r by (auto simp del: share_dirs.simps)
qed

end
