(* ===== verification/Go_Fmt.thy ===== *)
theory Go_Fmt
  imports Go_Strings
begin

text \<open>
  \<open>fmt.Sprintf(format)\<close> with no further argument, as package \<open>fmt\<close> formats it: every directive of
  the format is an error text, because no operand is left for it. The logger and the exec handler
  pass a finished message as a format, so what they return is this function of the message.
\<close>

definition is_flag :: "char \<Rightarrow> bool" where
  "is_flag c = (c \<in> {CHR ''#'', CHR ''0'', CHR ''+'', CHR ''-'', CHR '' ''})"

text \<open>
  \<open>parsenum\<close>: the digits at the start are skipped; a number above a million ends the format
  (\<open>tooLarge\<close>, tested before each further digit).
\<close>

fun skip_num :: "nat \<Rightarrow> string \<Rightarrow> string" where
  "skip_num n [] = []"
| "skip_num n (c # s) =
     (if \<not> is_digit c then c # s
      else if 1000000 < n then []
      else skip_num (10 * n + digit_val c) s)"

text \<open>
  \<open>argNumber\<close> at a position: nothing unless the text starts with a bracket; otherwise the index is
  bad (there are no operands) and the text up to the closing bracket, or the opening bracket alone
  when it is never closed or fewer than three bytes are left, is skipped. The result says whether an
  index was read well enough to count as \<open>afterIndex\<close>.
\<close>

fun num_fits :: "nat \<Rightarrow> string \<Rightarrow> bool" where
  "num_fits n [] = True"
| "num_fits n (c # s) = (is_digit c \<and> n \<le> 1000000 \<and> num_fits (10 * n + digit_val c) s)"

definition index_ok :: "string \<Rightarrow> bool" where
  "index_ok ds = (ds \<noteq> [] \<and> num_fits 0 ds)"

definition arg_number :: "string \<Rightarrow> bool \<times> bool \<times> string" where
  "arg_number s =
     (case s of
        [] \<Rightarrow> (True, False, s)
      | c # t \<Rightarrow>
          if c \<noteq> CHR ''['' then (True, False, s)
          else if length s < 3 \<or> CHR '']'' \<notin> set t then (False, False, t)
          else (False, index_ok (takeWhile (\<lambda>x. x \<noteq> CHR '']'') t),
                tl (dropWhile (\<lambda>x. x \<noteq> CHR '']'') t)))"

text \<open>The width, the precision and the second chance for an index, each with the text it prints.\<close>

definition dir_width :: "bool \<Rightarrow> string \<Rightarrow> string \<times> bool \<times> string" where
  "dir_width a s =
     (if s \<noteq> [] \<and> hd s = CHR ''*'' then (''%!(BADWIDTH)'', False, tl s) else ([], a, skip_num 0 s))"

definition dir_prec :: "bool \<Rightarrow> string \<Rightarrow> bool \<times> string \<times> bool \<times> string" where
  "dir_prec a s =
     (if s \<noteq> [] \<and> hd s = CHR ''.'' then
        (let (g, a', t) = arg_number (tl s)
         in if t \<noteq> [] \<and> hd t = CHR ''*'' then (g, ''%!(BADPREC)'', False, tl t)
            else (g, [], a', skip_num 0 t))
      else (True, [], a, s))"

definition dir_index :: "bool \<Rightarrow> string \<Rightarrow> bool \<times> string" where
  "dir_index a s = (if a then (True, s) else (let (g, a', t) = arg_number s in (g, t)))"

definition dir_verb :: "bool \<Rightarrow> string \<Rightarrow> string \<times> string" where
  "dir_verb good s =
     (case s of
        [] \<Rightarrow> (''%!(NOVERB)'', [])
      | v # rest \<Rightarrow>
          (if v = CHR ''%'' then ''%''
           else if \<not> good then ''%!'' @ [v] @ ''(BADINDEX)''
           else ''%!'' @ [v] @ ''(MISSING)'', rest))"

text \<open>One directive after its percent sign: what it prints and the rest of the format.\<close>

definition directive :: "string \<Rightarrow> string \<times> string" where
  "directive s =
     (let (g1, a1, s1) = arg_number (dropWhile is_flag s);
          (w, a2, s2) = dir_width a1 s1;
          (g2, p, a3, s3) = dir_prec a2 s2;
          (g3, s4) = dir_index a3 s3;
          (v, rest) = dir_verb (g1 \<and> g2 \<and> g3) s4
      in (w @ p @ v, rest))"

lemma length_skip_num: "length (skip_num n s) \<le> length s"
  by (induction n s rule: skip_num.induct) auto

lemma length_arg_number: "arg_number s = (g, a, t) \<Longrightarrow> length t \<le> length s"
  using length_dropWhile_le [of "\<lambda>x. x \<noteq> CHR '']''" "tl s"]
  by (auto simp: arg_number_def split: list.splits if_splits)

lemma length_dir_width: "dir_width a s = (w, a', t) \<Longrightarrow> length t \<le> length s"
  using length_skip_num [of 0 s] by (auto simp: dir_width_def split: if_splits)

lemma length_dir_prec:
  assumes "dir_prec a s = (g, p, a', t)"
  shows "length t \<le> length s"
proof (cases "arg_number (tl s)")
  case (fields g' b u)
  with assms length_arg_number [OF fields] length_skip_num [of 0 u] show ?thesis
    by (auto simp: dir_prec_def split: if_splits)
qed

lemma length_dir_index: "dir_index a s = (g, t) \<Longrightarrow> length t \<le> length s"
  using length_arg_number by (auto simp: dir_index_def split: if_splits prod.splits)

lemma length_dir_verb: "dir_verb g s = (v, t) \<Longrightarrow> length t \<le> length s"
  by (auto simp: dir_verb_def split: list.splits)

lemma length_directive: "directive s = (out, rest) \<Longrightarrow> length rest \<le> length s"
proof -
  assume d: "directive s = (out, rest)"
  obtain g1 a1 s1 where 1: "arg_number (dropWhile is_flag s) = (g1, a1, s1)" by (rule prod_cases3)
  obtain w a2 s2 where 2: "dir_width a1 s1 = (w, a2, s2)" by (rule prod_cases3)
  obtain g2 p a3 s3 where 3: "dir_prec a2 s2 = (g2, p, a3, s3)" by (rule prod_cases4)
  obtain g3 s4 where 4: "dir_index a3 s3 = (g3, s4)" by (rule prod.exhaust)
  obtain v r where 5: "dir_verb (g1 \<and> g2 \<and> g3) s4 = (v, r)" by (rule prod.exhaust)
  from d 1 2 3 4 5 have "r = rest" by (simp add: directive_def)
  then show ?thesis
    using length_arg_number [OF 1] length_dir_width [OF 2] length_dir_prec [OF 3]
      length_dir_index [OF 4] length_dir_verb [OF 5] length_dropWhile_le [of is_flag s]
    by simp
qed

function fmt_Sprintf0 :: "string \<Rightarrow> string" where
  "fmt_Sprintf0 [] = []"
| "fmt_Sprintf0 (c # s) =
     (if c \<noteq> CHR ''%'' then c # fmt_Sprintf0 s
      else fst (directive s) @ fmt_Sprintf0 (snd (directive s)))"
  by pat_completeness auto
termination
proof (relation "measure length")
  fix c :: char and s :: string
  have "length (snd (directive s)) \<le> length s"
    by (rule length_directive [of s "fst (directive s)"]) simp
  then show "(snd (directive s), c # s) \<in> measure length" by simp
qed simp_all

text \<open>A format without a percent sign is printed as it is; a percent sign can change the message.\<close>

lemma fmt_Sprintf0_plain: "CHR ''%'' \<notin> set s \<Longrightarrow> fmt_Sprintf0 s = s"
  by (induction s) auto

end
