(* ===== verification/Logger.thy ===== *)
theory Logger
  imports Host_FS Go_Fmt
begin

text \<open>
  Package \<open>logger\<close> (src/pkg/logger/logger.go): log files with rotation. A context is the log's
  directory, its name and the descriptor of its file; the package variable \<open>cs\<close> is the list
  \<open>managed\<close> of the contexts \<open>CloseAll\<close> closes.
\<close>

record logctx =
  lpath :: string
  lname :: string
  lfile :: nat

record loghost = hostfs +
  managed :: "logctx list"

text \<open>The path of the \<open>i\<close>-th generation of a log, \<open>name.log\<close> for the first.\<close>

definition log_path :: "string \<Rightarrow> string \<Rightarrow> nat \<Rightarrow> string" where
  "log_path p n i =
     path_Join [p, (n @ (if i > 1 then ''.'' @ strconv_Itoa (int i) else [])) @ ''.log'']"

text \<open>\<open>Context.init\<close>: generations are moved up from the last to the first, then the first is opened.\<close>

fun init_loop :: "nat \<Rightarrow> string \<Rightarrow> string \<Rightarrow> nat \<Rightarrow> 'a hostfs_scheme \<Rightarrow> nat res \<times> 'a hostfs_scheme" where
  "init_loop 0 p n fd h = (Inr fd, h)"
| "init_loop (Suc k) p n fd h =
     (let i = Suc k;
          logPath = log_path p n i;
          (err, h1) =
            (case os_Stat logPath h of
               Inr _ \<Rightarrow> os_Rename logPath (path_Join [p, n @ ''.'' @ strconv_Itoa (int i + 1) @ ''.log'']) h
             | Inl _ \<Rightarrow> (None, h))
      in case err of
           Some e \<Rightarrow> (Inl (Wrap ''cannot rename log file: '' e), h1)
         | None \<Rightarrow>
             if i = 1 then
               (case open_create True logPath h1 of
                  (Inl e, h2) \<Rightarrow> (Inl (Wrap ''cannot open log file: '' e), h2)
                | (Inr ino, h2) \<Rightarrow>
                    (let (f, h3) = fd_new logPath ino h2 in init_loop k p n f h3))
             else init_loop k p n fd h1)"

definition log_max :: nat where
  "log_max = 5"

definition logger_init :: "string \<Rightarrow> string \<Rightarrow> 'a hostfs_scheme \<Rightarrow> nat res \<times> 'a hostfs_scheme" where
  "logger_init p n h = init_loop (log_max - 1) p n 0 h"

definition NewWithoutManage ::
  "string \<Rightarrow> string \<Rightarrow> 'a hostfs_scheme \<Rightarrow> logctx res \<times> 'a hostfs_scheme" where
  "NewWithoutManage p n h =
     (case logger_init p n h of
        (Inl e, h') \<Rightarrow> (Inl e, h')
      | (Inr fd, h') \<Rightarrow> (Inr \<lparr>lpath = p, lname = n, lfile = fd\<rparr>, h'))"

definition logger_New ::
  "string \<Rightarrow> string \<Rightarrow> 'a loghost_scheme \<Rightarrow> logctx res \<times> 'a loghost_scheme" where
  "logger_New p n h =
     (case logger_init p n h of
        (Inl e, h') \<Rightarrow> (Inl e, h')
      | (Inr fd, h') \<Rightarrow>
          (let c = \<lparr>lpath = p, lname = n, lfile = fd\<rparr>
           in (Inr c, h'\<lparr>managed := managed h' @ [c]\<rparr>)))"

definition NewWithoutStream ::
  "string \<Rightarrow> string \<Rightarrow> 'a hostfs_scheme \<Rightarrow> string res \<times> 'a hostfs_scheme" where
  "NewWithoutStream p n h =
     (case logger_init p n h of
        (Inl e, h') \<Rightarrow> (Inl e, h')
      | (Inr fd, h') \<Rightarrow>
          (case fd_Close fd h' of
             (Some e, h'') \<Rightarrow> (Inl (Wrap ''cannot close log file: '' e), h'')
           | (None, h'') \<Rightarrow> (Inr (path_Join [p, n @ ''.log'']), h'')))"

definition logger_CloseAll :: "'a loghost_scheme \<Rightarrow> 'a loghost_scheme" where
  "logger_CloseAll h = foldl (\<lambda>h c. snd (fd_Close (lfile c) h)) h (managed h)"

text \<open>
  \<open>Context.base\<close>: one line, with the time \<open>now\<close> in the format of the code; a failed write is ignored.
\<close>

definition log_line :: "string \<Rightarrow> string \<Rightarrow> string \<Rightarrow> string" where
  "log_line now t m = now @ '' ['' @ t @ '']: '' @ m @ [CHR 0x0A]"

definition log_base :: "logctx \<Rightarrow> string \<Rightarrow> string \<Rightarrow> string \<Rightarrow> 'a hostfs_scheme \<Rightarrow> 'a hostfs_scheme" where
  "log_base c now t m h = snd (fd_Write (lfile c) (log_line now t m) h)"

definition log_Info :: "logctx \<Rightarrow> string \<Rightarrow> string \<Rightarrow> 'a hostfs_scheme \<Rightarrow> 'a hostfs_scheme" where
  "log_Info c now m h = log_base c now ''INFO'' m h"

text \<open>\<open>Warn\<close> and \<open>Error\<close> also call \<open>Sync\<close>, which changes nothing in the model and whose error is dropped.\<close>

definition log_Warn :: "logctx \<Rightarrow> string \<Rightarrow> string \<Rightarrow> 'a hostfs_scheme \<Rightarrow> goerr option \<times> 'a hostfs_scheme" where
  "log_Warn c now m h = (let h' = log_base c now ''WARN'' m h in (fd_Sync (lfile c) h', h'))"

text \<open>\<open>Error\<close> returns \<open>fmt.Errorf(message)\<close>: the message is used as a format once more.\<close>

definition log_Error :: "logctx \<Rightarrow> string \<Rightarrow> string \<Rightarrow> 'a hostfs_scheme \<Rightarrow> goerr \<times> 'a hostfs_scheme" where
  "log_Error c now m h =
     (let h' = log_base c now ''ERROR'' m h in (Msg (fmt_Sprintf0 m), h'))"

definition log_Close :: "logctx \<Rightarrow> 'a hostfs_scheme \<Rightarrow> 'a hostfs_scheme" where
  "log_Close c h = snd (fd_Close (lfile c) h)"


section \<open>Moving names between slots\<close>

text \<open>
  What a client of renaming relies on: among a set of paths none of which lies below another, moving
  a name empties the old slot, fills the new one and touches no third one.
\<close>

locale slot_moves =
  fixes view :: "'h \<Rightarrow> string \<Rightarrow> 'e option"
    and mv :: "string \<Rightarrow> string \<Rightarrow> 'h \<Rightarrow> 'h"
    and slots :: "string set"
  assumes view_mv: "p \<in> slots \<Longrightarrow> q \<in> slots \<Longrightarrow> p \<noteq> q \<Longrightarrow> r \<in> slots \<Longrightarrow>
    view (mv p q h) r = (if r = q then view h p else if r = p then None else view h r)"
begin

lemma view_cond_mv:
  assumes "p \<in> slots" and "q \<in> slots" and "p \<noteq> q" and "r \<in> slots"
    and "h' = (if view h p = None then h else mv p q h)"
  shows "view h' r = (if r = q then (if view h p = None then view h q else view h p)
    else if r = p then None else view h r)"
  using assms by (auto simp: view_mv)

lemma rotate_four:
  assumes d: "distinct [p1, p2, p3, p4, p5]" and s: "{p1, p2, p3, p4, p5} \<subseteq> slots"
    and h1: "h1 = (if view h p4 = None then h else mv p4 p5 h)"
    and h2: "h2 = (if view h1 p3 = None then h1 else mv p3 p4 h1)"
    and h3: "h3 = (if view h2 p2 = None then h2 else mv p2 p3 h2)"
    and h4: "h4 = (if view h3 p1 = None then h3 else mv p1 p2 h3)"
    and r: "r \<in> slots"
  shows "view h4 r =
    (if r = p1 then None else if r = p2 then view h p1 else if r = p3 then view h p2
     else if r = p4 then view h p3
     else if r = p5 then (if view h p4 = None then view h p5 else view h p4) else view h r)"
proof -
  have v1: "view h1 x = (if x = p5 then (if view h p4 = None then view h p5 else view h p4)
      else if x = p4 then None else view h x)" if "x \<in> slots" for x
    by (rule view_cond_mv [OF _ _ _ that h1]) (use d s in auto)
  have v2: "view h2 x = (if x = p4 then view h p3 else if x = p3 then None else view h1 x)"
    if "x \<in> slots" for x
    using view_cond_mv [OF _ _ _ that h2] v1 [of p3] v1 [of p4] d s by auto
  have v3: "view h3 x = (if x = p3 then view h p2 else if x = p2 then None else view h2 x)"
    if "x \<in> slots" for x
    using view_cond_mv [OF _ _ _ that h3] v1 [of p2] v2 [of p2] v2 [of p3] d s by auto
  have "view h4 r = (if r = p2 then view h p1 else if r = p1 then None else view h3 r)"
    using view_cond_mv [OF _ _ _ r h4] v1 [of p1] v2 [of p1] v3 [of p1] v3 [of p2] d s by auto
  then show ?thesis using v1 [OF r] v2 [OF r] v3 [OF r] d by auto
qed

end

definition move_name :: "string \<Rightarrow> string \<Rightarrow> 'a hostfs_scheme \<Rightarrow> 'a hostfs_scheme" where
  "move_name p q h = h\<lparr>names := rename_names p q (names h)\<rparr>"

definition plain_slots :: "string \<Rightarrow> string set" where
  "plain_slots k = {k @ u |u. plain_suffix u}"

lemma not_under_plain: "p \<in> plain_slots k \<Longrightarrow> q \<in> plain_slots k \<Longrightarrow> \<not> under p q"
proof
  assume "p \<in> plain_slots k" "q \<in> plain_slots k" "under p q"
  then obtain u v where "p = k @ u" "q = k @ v" "plain_suffix v"
    and "take (Suc (length (k @ u))) (k @ v) = k @ u @ ''/''"
    by (auto simp: plain_slots_def under_def)
  then have "take (Suc (length u)) v = u @ ''/''" by simp
  then have "CHR ''/'' \<in> set v"
    by (metis Un_iff in_set_takeD list.set_intros(1) set_append)
  with \<open>plain_suffix v\<close> show False by (simp add: plain_suffix_def)
qed

interpretation log_slots: slot_moves "names :: 'a hostfs_scheme \<Rightarrow> _" move_name "plain_slots k" for k
  by unfold_locales (auto simp: move_name_def rename_names_def not_under_plain)

section \<open>The paths of the generations\<close>

definition gen_suffix :: "nat \<Rightarrow> string" where
  "gen_suffix i = (if i > 1 then ''.'' @ strconv_Itoa (int i) else []) @ ''.log''"

lemma strconv_Itoa_nat [simp]: "strconv_Itoa (int i) = nat_digits i"
  by (simp add: strconv_Itoa_def)

lemma plain_suffix_dot_log: "CHR ''/'' \<notin> set u \<Longrightarrow> plain_suffix (u @ ''.log'')"
  by (auto simp: plain_suffix_def suffix_def Cons_eq_append_conv)

lemma plain_gen_suffix: "plain_suffix (gen_suffix i)"
proof -
  have "CHR ''/'' \<notin> set (nat_digits i)" using set_nat_digits by (fastforce simp: is_digit_def)
  then show ?thesis by (auto simp: gen_suffix_def intro!: plain_suffix_dot_log [of "[]", simplified]
        plain_suffix_dot_log [of "CHR ''.'' # nat_digits i", simplified])
qed

lemma nat_digits_inject [simp]: "nat_digits i = nat_digits j \<longleftrightarrow> i = j"
  by (metis digits_val_nat_digits)

lemma gen_suffix_inject: "0 < i \<Longrightarrow> 0 < j \<Longrightarrow> gen_suffix i = gen_suffix j \<longleftrightarrow> i = j"
  by (auto simp: gen_suffix_def split: if_splits)

lemma log_path_stem: "log_path p n i = path_stem p n @ gen_suffix i"
  using path_Join_plain [OF plain_gen_suffix, of p n i]
  by (simp add: log_path_def gen_suffix_def del: strconv_Itoa_nat)

lemma rename_target:
  "0 < i \<Longrightarrow> path_Join [p, n @ ''.'' @ strconv_Itoa (int i + 1) @ ''.log''] = log_path p n (Suc i)"
  by (simp add: log_path_def add.commute del: strconv_Itoa_nat)

lemma log_path_inject: "0 < i \<Longrightarrow> 0 < j \<Longrightarrow> log_path p n i = log_path p n j \<longleftrightarrow> i = j"
  by (simp add: log_path_stem gen_suffix_inject)

lemma log_path_slot: "log_path p n i \<in> plain_slots (path_stem p n)"
  using plain_gen_suffix by (auto simp: log_path_stem plain_slots_def)


section \<open>Rotation\<close>

text \<open>One round of the loop that stats and renames, when the kernel does not refuse the stat.\<close>

definition rotate_round :: "string \<Rightarrow> string \<Rightarrow> nat \<Rightarrow> 'a hostfs_scheme \<Rightarrow> 'a hostfs_scheme" where
  "rotate_round p n i h =
     (if names h (log_path p n i) = None then h
      else move_name (log_path p n i) (log_path p n (Suc i)) h)"

lemma os_Rename_move:
  assumes "os_Rename p q h = (None, h')" and "p \<noteq> q"
  shows "h' = move_name p q h" and "names h p \<noteq> None"
  using assms by (auto simp: os_Rename_def move_name_def Let_def split: option.splits if_splits)

lemma rotate_round_fields [host_simps]:
  "files (rotate_round p n i h) = files h" "refuse (rotate_round p n i h) = refuse h"
  "next_ino (rotate_round p n i h) = next_ino h" "fds (rotate_round p n i h) = fds h"
  "next_fd (rotate_round p n i h) = next_fd h" "journal (rotate_round p n i h) = journal h"
  "flocks (rotate_round p n i h) = flocks h"
  by (simp_all add: rotate_round_def move_name_def)

lemma init_loop_round:
  assumes "init_loop (Suc k) p n fd h = (Inr r, h')" and "0 < k"
    and "refuse h OpStat (log_path p n (Suc k)) = None"
  shows "init_loop k p n fd (rotate_round p n (Suc k) h) = (Inr r, h')"
proof (cases "names h (log_path p n (Suc k))")
  case None
  with assms show ?thesis by (simp add: os_Stat_def rotate_round_def)
next
  case (Some e)
  let ?q = "log_path p n (Suc (Suc k))"
  obtain err h1 where ren: "os_Rename (log_path p n (Suc k)) ?q h = (err, h1)"
    by (rule prod.exhaust)
  have tgt: "path_Join [p, n @ ''.'' @ strconv_Itoa (int (Suc k) + 1) @ ''.log''] = ?q"
    by (rule rename_target) simp
  have "err = None" and nxt: "init_loop k p n fd h1 = (Inr r, h')"
    using assms Some ren tgt by (auto simp: os_Stat_def Let_def add.commute split: option.splits)
  then have "h1 = move_name (log_path p n (Suc k)) ?q h"
    using os_Rename_move(1) [OF ren [unfolded \<open>err = None\<close>]] by (simp add: log_path_inject)
  with nxt Some show ?thesis by (simp add: rotate_round_def)
qed

lemma init_loop_round_num:
  assumes "init_loop m p n fd h = (Inr r, h')" and "m = Suc k" and "0 < k"
    and "refuse h OpStat (log_path p n m) = None"
  shows "init_loop k p n fd (rotate_round p n m h) = (Inr r, h')"
  using init_loop_round assms by blast

lemma init_loop_last:
  assumes "init_loop 1 p n fd h = (Inr r, h')"
    and "refuse h OpStat (log_path p n 1) = None"
  shows "\<exists>i h2. open_create True (log_path p n 1) (rotate_round p n 1 h) = (Inr i, h2) \<and>
    fd_new (log_path p n 1) i h2 = (r, h')"
proof (cases "names h (log_path p n 1)")
  case None
  with assms show ?thesis
    by (auto simp: os_Stat_def rotate_round_def fd_new_def Let_def split: prod.splits sum.splits)
next
  case (Some e)
  let ?p = "log_path p n 1" and ?q = "log_path p n 2"
  obtain err h1 where ren: "os_Rename ?p ?q h = (err, h1)" by (rule prod.exhaust)
  have tgt: "path_Join [p, n @ ''.'' @ strconv_Itoa (int 1 + 1) @ ''.log''] = ?q"
    using rename_target [of 1 p n] by (simp add: numeral_2_eq_2)
  have "err = None" and nxt: "(case open_create True ?p h1 of
      (Inl e, h2) \<Rightarrow> (Inl (Wrap ''cannot open log file: '' e), h2)
    | (Inr ino, h2) \<Rightarrow> (let (f, h3) = fd_new ?p ino h2 in (Inr f, h3))) = (Inr r, h')"
    using assms Some ren tgt
    by (auto simp: os_Stat_def Let_def split: option.splits prod.splits sum.splits)
  then have "h1 = rotate_round p n 1 h"
    using os_Rename_move(1) [OF ren [unfolded \<open>err = None\<close>]] Some
    by (simp add: log_path_inject rotate_round_def numeral_2_eq_2)
  with nxt show ?thesis by (auto simp: fd_new_def split: prod.splits sum.splits)
qed

lemma rotate_all:
  assumes "h4 = rotate_round p n 1 (rotate_round p n 2 (rotate_round p n 3 (rotate_round p n 4 h)))"
    and "r \<in> plain_slots (path_stem p n)"
  shows "names h4 r =
    (if r = log_path p n 1 then None else if r = log_path p n 2 then names h (log_path p n 1)
     else if r = log_path p n 3 then names h (log_path p n 2)
     else if r = log_path p n 4 then names h (log_path p n 3)
     else if r = log_path p n 5
     then (if names h (log_path p n 4) = None then names h (log_path p n 5)
           else names h (log_path p n 4))
     else names h r)"
proof -
  have 1: "distinct [log_path p n 1, log_path p n 2, log_path p n 3, log_path p n 4, log_path p n 5]"
    by (simp add: log_path_inject)
  have 2: "{log_path p n 1, log_path p n 2, log_path p n 3, log_path p n 4, log_path p n 5}
      \<subseteq> plain_slots (path_stem p n)"
    using log_path_slot by blast
  have r: "rotate_round p n i x = (if names x (log_path p n i) = None then x
      else move_name (log_path p n i) (log_path p n j) x)" if "j = Suc i" for i j x
    using that by (simp add: rotate_round_def)
  show ?thesis
    unfolding assms(1)
    by (rule log_slots.rotate_four [OF 1 2 r r r r assms(2)]) simp_all
qed



lemma rotate_round_wf: "fs_wf h \<Longrightarrow> fs_wf (rotate_round p n i h)"
  by (simp add: rotate_round_def move_name_def rename_names_wf)

definition rotated :: "string \<Rightarrow> string \<Rightarrow> 'a hostfs_scheme \<Rightarrow> 'a hostfs_scheme" where
  "rotated p n h = rotate_round p n 1 (rotate_round p n 2 (rotate_round p n 3 (rotate_round p n 4 h)))"

lemma rotated_wf: "fs_wf h \<Longrightarrow> fs_wf (rotated p n h)"
  by (simp add: rotated_def rotate_round_wf)

text \<open>A successful \<open>init\<close> is the rotation followed by opening the first generation.\<close>

lemma logger_init_ok:
  assumes "logger_init p n h = (Inr fd, h')"
    and "\<forall>i \<in> {1, 2, 3, 4}. refuse h OpStat (log_path p n i) = None"
  shows "\<exists>i h2. open_create True (log_path p n 1) (rotated p n h) = (Inr i, h2) \<and>
    fd_new (log_path p n 1) i h2 = (fd, h')"
proof -
  have st: "refuse h OpStat (log_path p n i) = None" if "i \<in> {1, 2, 3, 4}" for i
    by (rule bspec [OF assms(2) that])
  have "init_loop 4 p n 0 h = (Inr fd, h')"
    using assms(1) by (simp add: logger_init_def log_max_def)
  then have "init_loop 3 p n 0 (rotate_round p n 4 h) = (Inr fd, h')"
    by (rule init_loop_round_num) (simp_all add: st)
  then have "init_loop 2 p n 0 (rotate_round p n 3 (rotate_round p n 4 h)) = (Inr fd, h')"
    by (rule init_loop_round_num) (simp_all add: st host_simps)
  then have "init_loop 1 p n 0 (rotate_round p n 2 (rotate_round p n 3 (rotate_round p n 4 h))) = (Inr fd, h')"
    by (rule init_loop_round_num) (simp_all add: st host_simps)
  then show ?thesis
    unfolding rotated_def by (rule init_loop_last) (simp add: st host_simps)
qed

lemma content_rotated:
  assumes "r \<in> plain_slots (path_stem p n)"
  shows "content (rotated p n h) r =
    (if r = log_path p n 1 then None else if r = log_path p n 2 then content h (log_path p n 1)
     else if r = log_path p n 3 then content h (log_path p n 2)
     else if r = log_path p n 4 then content h (log_path p n 3)
     else if r = log_path p n 5
     then (if names h (log_path p n 4) = None then content h (log_path p n 5)
           else content h (log_path p n 4))
     else content h r)"
proof -
  define f where "f n = (case n of Some (File i) \<Rightarrow> Some (files h i) | _ \<Rightarrow> None)" for n
  have "content (rotated p n h) r = f (names (rotated p n h) r)"
    by (simp add: content_def f_def rotated_def host_simps split: option.split entry.split)
  moreover have "content h x = f (names h x)" for x by (simp add: content_def f_def)
  moreover have "f None = None" by (simp add: f_def)
  ultimately show ?thesis
    using rotate_all [OF refl assms, of h, folded rotated_def]
    by (simp only: if_distrib [of f] if_True if_False)
qed



definition demo_logs :: hostfs where
  "demo_logs = host_with [(''/l/n.log'', ''new''), (''/l/n.4.log'', ''old'')] [''/l'']"


end
