(* ===== verification/Vfkit.thy ===== *)
theory Vfkit
  imports Cli Logger
begin

text \<open>
  The configuration of the virtual machine (src/pkg/vfkit/config.go, mount.go, kernel_cmd.go and the command of
  ignition.go): the directories shared with the guest, the kernel's command line, the devices, and the shell command by which the
  guest sets itself up. The parsing of the boot loader's options is that of
  src/vendor/github.com/crc-org/vfkit/pkg/config.
\<close>

section \<open>Shared directories\<close>

record share =
  tag :: string
  shareDir :: string

definition default_mounts :: "share list" where
  "default_mounts =
     [\<lparr>tag = ''vfkit-share-user'', shareDir = ''/Users''\<rparr>,
      \<lparr>tag = ''vfkit-share-var-folders'', shareDir = ''/var/folders''\<rparr>,
      \<lparr>tag = ''vfkit-share-private'', shareDir = ''/private''\<rparr>]"

definition mounts_extend :: "string \<Rightarrow> string \<Rightarrow> share list \<Rightarrow> share list" where
  "mounts_extend t d ms =
     (if list_ex (\<lambda>fs. tag fs = t \<or> shareDir fs = d) ms then ms else ms @ [\<lparr>tag = t, shareDir = d\<rparr>])"

text \<open>The loop at the start of \<open>Run\<close>, over the entries of the option in the order of the iteration.\<close>

fun extend_all :: "(string \<times> string) list \<Rightarrow> share list \<Rightarrow> share list" where
  "extend_all [] ms = ms"
| "extend_all ((t, d) # kvs) ms = extend_all kvs (mounts_extend t d ms)"

datatype device = Blk string | Vsock nat string bool | SerialStdio | SerialLog string | Fs string string | Rng

definition toVFKit :: "share list \<Rightarrow> device list" where
  "toVFKit ms = map (\<lambda>fs. Fs (shareDir fs) (tag fs)) ms"

definition bsl :: char where "bsl = CHR 0x5C"

definition toFSTAB :: "share list \<Rightarrow> string list" where
  "toFSTAB ms =
     map (\<lambda>fs. let dir = strings_ReplaceAll (shareDir fs) (CHR '' '') ([bsl, bsl, bsl, bsl] @ ''040'')
               in tag fs @ '' '' @ dir @ '' virtiofs defaults 0 0'') ms"

section \<open>The kernel's command line\<close>

text \<open>The constant of package \<open>consts\<close> for the platform of the build.\<close>

datatype goarch = Amd64 | Arm64

definition IsAMD64 :: "goarch \<Rightarrow> bool" where
  "IsAMD64 arch = (case arch of Amd64 \<Rightarrow> True | Arm64 \<Rightarrow> False)"

definition kernelCMD :: "bool \<Rightarrow> cctx \<Rightarrow> string" where
  "kernelCMD amd64 opt =
     strings_TrimRight
       (''console=hvc0 '' @ ''fb_tunnels=none '' @
        (if amd64 then ''clocksource=tsc tsc=reliable '' else []) @
        (if \<not> IsCliMode opt then ''systemd.log_color=false '' else []) @
        ''systemd.default_standard_output=journal+console '' @
        ''systemd.default_standard_error=journal+console '' @
        (if KernelDebug opt then ''debug '' else [])) (CHR '' '')"

section \<open>The boot loader\<close>

record linux_boot =
  VmlinuzPath :: string
  KernelCmdLine :: string
  BootInitrd :: string

text \<open>\<open>strings.SplitN(str, "=", 2)\<close> into the key and the value.\<close>

definition strToOption :: "string \<Rightarrow> string \<times> string" where
  "strToOption s = (takeWhile (\<lambda>c. c \<noteq> CHR ''='') s, drop 1 (dropWhile (\<lambda>c. c \<noteq> CHR ''='') s))"

definition strvToOptions :: "string list \<Rightarrow> (string \<times> string) list" where
  "strvToOptions opts = map strToOption (filter (\<lambda>s. s \<noteq> []) opts)"

definition TrimQuotes :: "string \<Rightarrow> string" where
  "TrimQuotes s =
     (if s \<noteq> [] \<and> hd s = CHR 0x22 \<and> last s = CHR 0x22
      then trim_right_by (\<lambda>c. c = CHR 0x22) (dropWhile (\<lambda>c. c = CHR 0x22) s) else s)"

fun linux_FromOptions :: "(string \<times> string) list \<Rightarrow> linux_boot \<Rightarrow> linux_boot res" where
  "linux_FromOptions [] b = Inr b"
| "linux_FromOptions ((k, v) # kvs) b =
     (if k = ''kernel'' then linux_FromOptions kvs (b\<lparr>VmlinuzPath := v\<rparr>)
      else if k = ''cmdline'' then linux_FromOptions kvs (b\<lparr>KernelCmdLine := TrimQuotes v\<rparr>)
      else if k = ''initrd'' then linux_FromOptions kvs (b\<lparr>BootInitrd := v\<rparr>)
      else Inl (Msg (''Unknown option for linux bootloaders: '' @ k)))"

text \<open>\<open>BootloaderFromCmdLine\<close>, for the loader type the program gives.\<close>

definition BootloaderFromCmdLine :: "string list \<Rightarrow> linux_boot res" where
  "BootloaderFromCmdLine opts =
     (case opts of
        [] \<Rightarrow> Inl (Msg ''empty option list in --bootloader command line argument'')
      | t # os \<Rightarrow>
          if t = ''linux'' then linux_FromOptions (strvToOptions os) \<lparr>VmlinuzPath = [], KernelCmdLine = [], BootInitrd = []\<rparr>
          else Inl (Msg (''unknown bootloader type: '' @ t)))"

section \<open>The machine\<close>

record vm_config =
  Vcpus :: "64 word"
  vmMemory :: "64 word"
  Bootloader :: linux_boot
  Devices :: "device list"

definition AddDevice :: "device \<Rightarrow> vm_config \<Rightarrow> vm_config" where
  "AddDevice d c = c\<lparr>Devices := Devices c @ [d]\<rparr>"

definition VirtioVsockDevices :: "vm_config \<Rightarrow> (nat \<times> string) list" where
  "VirtioVsockDevices c = concat (map (\<lambda>d. case d of Vsock p u _ \<Rightarrow> [(p, u)] | _ \<Rightarrow> []) (Devices c))"

definition fmt_list :: "string list \<Rightarrow> string" where
  "fmt_list xs = ''['' @ strings_Join xs '' '' @ '']''"

definition quoted :: "string \<Rightarrow> string" where
  "quoted s = [CHR 0x27] @ s @ [CHR 0x27]"

definition uint_text :: "64 word \<Rightarrow> string" where
  "uint_text w = nat_digits (unat w)"

text \<open>
  \<open>vmConfig\<close>: the host with the log file of the serial device, the lines logged, and the configuration or the error.
\<close>

definition vmConfig ::
  "bool \<Rightarrow> share list \<Rightarrow> cctx \<Rightarrow> 'a hostfs_scheme \<Rightarrow> vm_config res \<times> (string \<times> string) list \<times> 'a hostfs_scheme" where
  "vmConfig amd64 ms opt h =
     (let bootloaderCMD = [''linux'', ''kernel='' @ KernelPath opt, ''initrd='' @ InitrdPath opt, ''cmdline='' @ kernelCMD amd64 opt];
          l1 = [(''INFO'', ''bootloader params: '' @ fmt_list bootloaderCMD)]
      in case BootloaderFromCmdLine bootloaderCMD of
           Inl e \<Rightarrow> (Inl e, l1, h)
         | Inr bootloader \<Rightarrow>
             (let l2 = l1 @
                    [(''INFO'', ''vm cpu: '' @ uint_text (CPUS opt) @ '', memory: '' @ uint_text (MemoryBytes opt div 1024 div 1024)),
                     (''INFO'', ''block devices: vda: '' @ quoted (RootfsPath opt) @ '', vdb: '' @ quoted (DiskTmpPath opt) @ '', vdc: '' @ quoted (DiskDataPath opt)),
                     (''INFO'', ''vsock device: network: '' @ quoted (''1024-'' @ SocketNetworkPath opt) @ '', initrd: '' @
                        quoted (''1025-'' @ SocketInitrdVSockPath opt) @ '', ready: '' @ quoted (''1026-'' @ SocketReadyPath opt))];
                  vm1 = fold AddDevice
                    [Blk (RootfsPath opt), Blk (DiskTmpPath opt), Blk (DiskDataPath opt),
                     Vsock 1024 (SocketNetworkPath opt) False, Vsock 1025 (SocketInitrdVSockPath opt) False,
                     Vsock 1026 (SocketReadyPath opt) False, Vsock 1027 (TimeSyncSocketPath opt) False,
                     Vsock 1028 (SSHAuthSocketPath opt) False]
                    \<lparr>Vcpus = CPUS opt, vmMemory = MemoryBytes opt, Bootloader = bootloader, Devices = []\<rparr>;
                  l3 = [(''INFO'', ''mount devices: '' @ fmt_list (map (\<lambda>fs. ''{tag:'' @ tag fs @ '' shareDir:'' @ shareDir fs @ ''}'') ms))]
              in if IsCliMode opt
                 then (Inr (AddDevice Rng (fold AddDevice (toVFKit ms) (AddDevice SerialStdio vm1))), l2 @ l3, h)
                 else case NewWithoutStream (LogPath opt) (Name opt @ ''-vm'') h of
                        (Inl e, h1) \<Rightarrow> (Inl e, l2 @ [(''ERROR'', ''create serial logger error: '' @ err_text e)], h1)
                      | (Inr logPath, h1) \<Rightarrow>
                          (Inr (AddDevice Rng (fold AddDevice (toVFKit ms) (AddDevice (SerialLog logPath) vm1))), l2 @ l3, h1)))"

section \<open>The guest's set-up command\<close>

definition fstab_text :: "share list \<Rightarrow> string" where
  "fstab_text ms = concat (map (\<lambda>item. item @ [bsl, bsl, CHR ''n'']) (toFSTAB ms))"

definition ignition_cmd :: "string res \<Rightarrow> int \<Rightarrow> share list \<Rightarrow> cctx \<Rightarrow> string res" where
  "ignition_cmd tzpath now ms opt =
     (case LocalTZ tzpath of
        Inl e \<Rightarrow> Inl e
      | Inr localTZ \<Rightarrow>
          (let tz = ''ln -sf /usr/share/zoneinfo/'' @ localTZ @ '' /mnt/overlay/etc/localtime; echo '' @ localTZ @ '' > /mnt/overlay/etc/timezone'';
               mount = ''echo -e '' @ fstab_text ms @ '' >> /mnt/overlay/etc/fstab'';
               authorizedKeys = ''mkdir -p /mnt/overlay/root/.ssh; echo '' @ SSHPublicKey opt @ '' >> /mnt/overlay/root/.ssh/authorized_keys'';
               ready = ''echo -e '' @ [CHR 0x22] @ ''date -s @'' @ strconv_Itoa now @ '';'' @ [bsl, bsl, CHR ''n''] @
                 ''echo Ready | socat -v -d -d - VSOCK-CONNECT:2:1026'' @ [CHR 0x22] @ '' > /mnt/overlay/opt/ready.command''
           in Inr (mount @ ''; '' @ authorizedKeys @ ''; '' @ ready @ ''; '' @ tz)))"

section \<open>The list of shared directories\<close>

definition mounts_ok :: "share list \<Rightarrow> bool" where
  "mounts_ok ms = (distinct (map tag ms) \<and> distinct (map shareDir ms))"

lemma mounts_ok_default: "mounts_ok default_mounts"
  by (simp add: mounts_ok_def default_mounts_def)

lemma mounts_ok_extend: "mounts_ok ms \<Longrightarrow> mounts_ok (mounts_extend t d ms)"
  by (auto simp: mounts_ok_def mounts_extend_def list_ex_iff)

lemma mounts_extend_prefix: "prefix ms (mounts_extend t d ms)"
  by (simp add: mounts_extend_def)

lemma extend_all_facts:
  "mounts_ok ms \<Longrightarrow> mounts_ok (extend_all kvs ms)" "prefix ms (extend_all kvs ms)"
  "fs \<in> set (extend_all kvs ms) \<Longrightarrow> fs \<in> set ms \<or> (tag fs, shareDir fs) \<in> set kvs"
proof (induction kvs arbitrary: ms)
  case (Cons kv kvs)
  obtain t d where kv: "kv = (t, d)" by fastforce
  { case 1 then show ?case using Cons.IH(1) mounts_ok_extend kv by simp }
  { case 2 show ?case using Cons.IH(2) mounts_extend_prefix kv by (metis extend_all.simps(2) prefix_order.trans) }
  { case 3
    then have "fs \<in> set (mounts_extend t d ms) \<or> (tag fs, shareDir fs) \<in> set kvs" using Cons.IH(3) kv by simp
    then show ?case using kv by (auto simp: mounts_extend_def split: if_splits) }
qed auto

lemma extend_all_new:
  assumes "distinct (map fst kvs)" and "distinct (map snd kvs)"
    and "fst ` set kvs \<inter> tag ` set ms = {}" and "snd ` set kvs \<inter> shareDir ` set ms = {}"
  shows "extend_all kvs ms = ms @ map (\<lambda>(t, d). \<lparr>tag = t, shareDir = d\<rparr>) kvs"
  using assms
proof (induction kvs arbitrary: ms)
  case (Cons kv kvs)
  obtain t d where kv: "kv = (t, d)" by fastforce
  have e: "mounts_extend t d ms = ms @ [\<lparr>tag = t, shareDir = d\<rparr>]"
    using Cons.prems(3,4) kv by (auto simp: mounts_extend_def list_ex_iff)
  have "extend_all kvs (ms @ [\<lparr>tag = t, shareDir = d\<rparr>]) = (ms @ [\<lparr>tag = t, shareDir = d\<rparr>]) @ map (\<lambda>(t, d). \<lparr>tag = t, shareDir = d\<rparr>) kvs"
    using Cons.prems kv by (intro Cons.IH) auto
  then show ?case using e kv by simp
qed simp

section \<open>The guest reads its fstab\<close>

text \<open>
  What the guest's shell and its \<open>echo -e\<close> make of unquoted words: a backslash takes the next character literally, then
  the two escapes that occur are replaced; and how mount reads a line of fstab.
\<close>

fun sh_unquote :: "string \<Rightarrow> string" where
  "sh_unquote (a # b # r) = (if a = bsl then b # sh_unquote r else a # sh_unquote (b # r))"
| "sh_unquote r = r"

fun echo_e :: "string \<Rightarrow> string" where
  "echo_e (a # b # r) =
     (if a = bsl \<and> b = bsl then bsl # echo_e r
      else if a = bsl \<and> b = CHR ''n'' then CHR 0x0A # echo_e r
      else a # echo_e (b # r))"
| "echo_e r = r"

definition fstab_space :: string where
  "fstab_space = bsl # ''040''"

function fstab_unescape :: "string \<Rightarrow> string" where
  "fstab_unescape s =
     (if s = [] then []
      else if take 4 s = fstab_space then CHR '' '' # fstab_unescape (drop 4 s)
      else hd s # fstab_unescape (tl s))"
  by pat_completeness auto
termination
  by (relation "measure length") auto

declare fstab_unescape.simps [simp del]

definition fstab_entry :: "string \<Rightarrow> string \<times> string" where
  "fstab_entry l = (case strings_Split l (CHR '' '') of t # d # r \<Rightarrow> (t, fstab_unescape d) | _ \<Rightarrow> ([], []))"

definition read_fstab :: "string \<Rightarrow> (string \<times> string) list" where
  "read_fstab t = map fstab_entry (butlast (strings_Split t (CHR 0x0A)))"

text \<open>Characters that mean themselves to the shell.\<close>

definition safe_char :: "char \<Rightarrow> bool" where
  "safe_char c =
     (let n = (of_char c :: nat)
      in (97 \<le> n \<and> n \<le> 122) \<or> (65 \<le> n \<and> n \<le> 90) \<or> (48 \<le> n \<and> n \<le> 57) \<or> c \<in> set ''-_./+,:@%='')"

definition safe_share :: "share \<Rightarrow> bool" where
  "safe_share fs = (list_all safe_char (tag fs) \<and> list_all (\<lambda>c. safe_char c \<or> c = CHR '' '') (shareDir fs))"

lemma safe_char_plain: "safe_char c \<Longrightarrow> c \<noteq> bsl \<and> c \<noteq> CHR '' '' \<and> c \<noteq> CHR 0x0A"
  by (auto simp: safe_char_def bsl_def)

lemma sh_unquote_cons: "bsl \<noteq> a \<Longrightarrow> sh_unquote (a # r) = a # sh_unquote r"
  by (cases r) simp_all

lemma echo_e_cons: "bsl \<noteq> a \<Longrightarrow> echo_e (a # r) = a # echo_e r"
  by (cases r) simp_all

lemma sh_unquote_plain: "bsl \<notin> set a \<Longrightarrow> sh_unquote (a @ r) = a @ sh_unquote r"
  by (induction a) (auto simp: sh_unquote_cons)

lemma echo_e_plain: "bsl \<notin> set a \<Longrightarrow> echo_e (a @ r) = a @ echo_e r"
  by (induction a) (auto simp: echo_e_cons)

lemma ReplaceAll_Cons: "strings_ReplaceAll (c # d) x y = (if c = x then y else [c]) @ strings_ReplaceAll d x y"
  by (simp add: strings_ReplaceAll_def)

lemma bsl_digits: "bsl \<noteq> CHR ''0''" "bsl \<noteq> CHR ''4''" "bsl \<noteq> CHR ''n''" "bsl \<noteq> CHR '' ''"
  by (simp_all add: bsl_def)

lemma sh_unquote_dir:
  assumes "bsl \<notin> set d"
  shows "sh_unquote (strings_ReplaceAll d (CHR '' '') ([bsl, bsl, bsl, bsl] @ ''040'') @ r) =
    strings_ReplaceAll d (CHR '' '') ([bsl, bsl] @ ''040'') @ sh_unquote r"
  using assms
proof (induction d)
  case (Cons c d)
  then show ?case using bsl_digits by (cases "c = CHR '' ''") (simp_all add: ReplaceAll_Cons sh_unquote_cons)
qed (simp add: strings_ReplaceAll_def)

lemma echo_e_dir:
  assumes "bsl \<notin> set d"
  shows "echo_e (strings_ReplaceAll d (CHR '' '') ([bsl, bsl] @ ''040'') @ r) = strings_ReplaceAll d (CHR '' '') fstab_space @ echo_e r"
  using assms
proof (induction d)
  case (Cons c d)
  then show ?case using bsl_digits by (cases "c = CHR '' ''") (simp_all add: ReplaceAll_Cons echo_e_cons fstab_space_def)
qed (simp add: strings_ReplaceAll_def)

lemma fstab_unescape_dir:
  assumes "bsl \<notin> set d"
  shows "fstab_unescape (strings_ReplaceAll d (CHR '' '') fstab_space) = d"
  using assms
proof (induction d)
  case (Cons c d)
  let ?r = "strings_ReplaceAll d (CHR '' '') fstab_space"
  show ?case
  proof (cases "c = CHR '' ''")
    case True
    then have "fstab_unescape (strings_ReplaceAll (c # d) (CHR '' '') fstab_space) = CHR '' '' # fstab_unescape ?r"
      by (subst fstab_unescape.simps) (simp add: ReplaceAll_Cons fstab_space_def)
    then show ?thesis using Cons True by simp
  next
    case False
    then have "fstab_unescape (strings_ReplaceAll (c # d) (CHR '' '') fstab_space) = c # fstab_unescape ?r"
      using Cons.prems by (subst fstab_unescape.simps) (auto simp: ReplaceAll_Cons fstab_space_def)
    then show ?thesis using Cons by simp
  qed
qed (simp add: strings_ReplaceAll_def fstab_unescape.simps)

definition fstab_line :: "share \<Rightarrow> string" where
  "fstab_line fs = tag fs @ CHR '' '' # strings_ReplaceAll (shareDir fs) (CHR '' '') fstab_space @ '' virtiofs defaults 0 0''"

lemma safe_shareD:
  assumes "safe_share fs"
  shows "bsl \<notin> set (tag fs)" "CHR '' '' \<notin> set (tag fs)" "CHR 0x0A \<notin> set (tag fs)" "bsl \<notin> set (shareDir fs)" "CHR 0x0A \<notin> set (shareDir fs)"
  using assms safe_char_plain bsl_digits by (auto simp: safe_share_def list_all_iff)

lemma guest_fstab_text:
  assumes "list_all safe_share ms"
  shows "echo_e (sh_unquote (fstab_text ms)) = concat (map (\<lambda>fs. fstab_line fs @ [CHR 0x0A]) ms)"
  using assms
proof (induction ms)
  case Nil
  then show ?case by (simp add: fstab_text_def toFSTAB_def)
next
  case (Cons fs ms)
  have "safe_share fs" using Cons.prems by simp
  note f = safe_shareD [OF this]
  have v: "bsl \<notin> set (CHR '' '' # [])" "bsl \<notin> set '' virtiofs defaults 0 0''" by (simp_all add: bsl_def)
  let ?d = "strings_ReplaceAll (shareDir fs) (CHR '' '') ([bsl, bsl, bsl, bsl] @ ''040'')"
  let ?e = "strings_ReplaceAll (shareDir fs) (CHR '' '') ([bsl, bsl] @ ''040'')"
  have "fstab_text (fs # ms) = tag fs @ [CHR '' ''] @ ?d @ '' virtiofs defaults 0 0'' @ [bsl, bsl, CHR ''n''] @ fstab_text ms"
    by (simp add: fstab_text_def toFSTAB_def Let_def)
  then have "sh_unquote (fstab_text (fs # ms)) = tag fs @ [CHR '' ''] @ ?e @ '' virtiofs defaults 0 0'' @ [bsl, CHR ''n''] @ sh_unquote (fstab_text ms)"
    using bsl_digits by (simp only: sh_unquote_plain [OF f(1)] sh_unquote_plain [OF v(1)] sh_unquote_plain [OF v(2)] sh_unquote_dir [OF f(4)]) (simp add: sh_unquote_cons)
  then have "echo_e (sh_unquote (fstab_text (fs # ms))) =
      tag fs @ [CHR '' ''] @ strings_ReplaceAll (shareDir fs) (CHR '' '') fstab_space @ '' virtiofs defaults 0 0'' @ [CHR 0x0A] @ echo_e (sh_unquote (fstab_text ms))"
    using bsl_digits by (simp only: echo_e_plain [OF f(1)] echo_e_plain [OF v(1)] echo_e_plain [OF v(2)] echo_e_dir [OF f(4)]) simp
  with Cons show ?case by (simp add: fstab_line_def)
qed

lemma Split_lines: "\<forall>l \<in> set ls. c \<notin> set l \<Longrightarrow> strings_Split (concat (map (\<lambda>l. l @ [c]) ls)) c = ls @ [[]]"
  by (induction ls) (simp_all add: strings_Split_append_sep)

lemma set_ReplaceAll: "set (strings_ReplaceAll d x y) \<subseteq> (set d - {x}) \<union> set y"
  by (induction d) (auto simp: strings_ReplaceAll_def split: if_splits)

lemma fstab_entry_line:
  assumes "safe_share fs"
  shows "fstab_entry (fstab_line fs) = (tag fs, shareDir fs)" and "CHR 0x0A \<notin> set (fstab_line fs)"
proof -
  note f = safe_shareD [OF assms]
  let ?d = "strings_ReplaceAll (shareDir fs) (CHR '' '') fstab_space"
  have d: "CHR '' '' \<notin> set ?d" "CHR 0x0A \<notin> set ?d"
    using f set_ReplaceAll [of "shareDir fs" "CHR '' ''" fstab_space] by (auto simp: fstab_space_def bsl_def)
  have "strings_Split (fstab_line fs) (CHR '' '') = tag fs # ?d # strings_Split ''virtiofs defaults 0 0'' (CHR '' '')"
    using strings_Split_append_sep [OF f(2), of "?d @ '' virtiofs defaults 0 0''"] strings_Split_append_sep [OF d(1), of "''virtiofs defaults 0 0''"]
    by (simp add: fstab_line_def)
  then show "fstab_entry (fstab_line fs) = (tag fs, shareDir fs)" using fstab_unescape_dir [OF f(4)] by (simp add: fstab_entry_def)
  show "CHR 0x0A \<notin> set (fstab_line fs)" using f d by (auto simp: fstab_line_def)
qed



section \<open>The configuration\<close>

definition cmdline_words :: "bool \<Rightarrow> cctx \<Rightarrow> string list" where
  "cmdline_words amd64 opt =
     [''console=hvc0'', ''fb_tunnels=none''] @ (if amd64 then [''clocksource=tsc'', ''tsc=reliable''] else []) @
     (if IsCliMode opt then [] else [''systemd.log_color=false'']) @
     [''systemd.default_standard_output=journal+console'', ''systemd.default_standard_error=journal+console''] @
     (if KernelDebug opt then [''debug''] else [])"

lemma kernelCMD_words: "strings_Split (kernelCMD a opt) (CHR '' '') = cmdline_words a opt"
  by (cases a; cases "IsCliMode opt"; cases "KernelDebug opt")
    (simp_all add: kernelCMD_def cmdline_words_def strings_TrimRight_def trim_right_by_def)

lemma kernelCMD_unquoted: "TrimQuotes (kernelCMD a opt) = kernelCMD a opt"
  by (cases a; cases "IsCliMode opt"; cases "KernelDebug opt")
    (simp_all add: kernelCMD_def TrimQuotes_def strings_TrimRight_def trim_right_by_def)

lemma strToOption_simps:
  "strToOption (''kernel='' @ v) = (''kernel'', v)" "strToOption (''initrd='' @ v) = (''initrd'', v)" "strToOption (''cmdline='' @ v) = (''cmdline'', v)"
  by (simp_all add: strToOption_def)

lemma bootloader_ok:
  "BootloaderFromCmdLine [''linux'', ''kernel='' @ k, ''initrd='' @ i, ''cmdline='' @ kernelCMD a opt] =
   Inr \<lparr>VmlinuzPath = k, KernelCmdLine = kernelCMD a opt, BootInitrd = i\<rparr>"
  unfolding BootloaderFromCmdLine_def strvToOptions_def
  by (simp add: strToOption_simps [simplified] kernelCMD_unquoted)

lemma fold_AddDevice: "fold AddDevice ds c = c\<lparr>Devices := Devices c @ ds\<rparr>"
  by (induction ds arbitrary: c) (simp_all add: AddDevice_def)



end
