(* ===== verification/Channel.thy ===== *)
theory Channel
  imports Ovm_Prelude
begin

text \<open>
  Go channels, the unbounded channel of the library \<open>infinity\<close>
  (src/vendor/github.com/Code-Hex/go-infinity-channel/channel.go), and the channels by which the parts of the program tell each
  other that they are ready (src/pkg/channel/channel.go). An operation that would wait is \<open>Blocks\<close>, a
  send on a closed channel and a second close are \<open>Panics\<close>.
\<close>

datatype 'a chan_res = Blocks | Panics | Done 'a

section \<open>Buffered channels\<close>

record 'a gochan =
  cbuf :: "'a list"
  ccap :: nat
  cclosed :: bool

definition chan_make :: "nat \<Rightarrow> 'a gochan" where
  "chan_make n = \<lparr>cbuf = [], ccap = n, cclosed = False\<rparr>"

definition chan_send :: "'a \<Rightarrow> 'a gochan \<Rightarrow> 'a gochan chan_res" where
  "chan_send v c =
     (if cclosed c then Panics
      else if length (cbuf c) < ccap c then Done (c\<lparr>cbuf := cbuf c @ [v]\<rparr>) else Blocks)"

text \<open>A receive gives \<open>None\<close> for the zero value of a closed and drained channel.\<close>

definition chan_recv :: "'a gochan \<Rightarrow> ('a option \<times> 'a gochan) chan_res" where
  "chan_recv c =
     (case cbuf c of
        v # vs \<Rightarrow> Done (Some v, c\<lparr>cbuf := vs\<rparr>)
      | [] \<Rightarrow> if cclosed c then Done (None, c) else Blocks)"

definition chan_close :: "'a gochan \<Rightarrow> 'a gochan chan_res" where
  "chan_close c = (if cclosed c then Panics else Done (c\<lparr>cclosed := True\<rparr>))"

section \<open>The unbounded channel\<close>

text \<open>
  The state of the goroutine \<open>infiniteBuffer\<close>: its buffer, whether the input was closed, whether the
  goroutine has seen that (its variable \<open>input\<close> is nil), and whether it has closed the output. A send
  is the goroutine's receive from the input, a receive its send to the output; the goroutine ends, and closes
  the output, when the input is nil and the buffer empty.
\<close>

record 'a inf =
  ibuf :: "'a list"
  iclosed :: bool
  inil :: bool
  odone :: bool

definition NewChannel :: "'a inf" where
  "NewChannel = \<lparr>ibuf = [], iclosed = False, inil = False, odone = False\<rparr>"

definition inf_after :: "'a inf \<Rightarrow> 'a inf" where
  "inf_after c = c\<lparr>odone := (inil c \<and> ibuf c = [])\<rparr>"

definition inf_send :: "'a \<Rightarrow> 'a inf \<Rightarrow> 'a inf chan_res" where
  "inf_send v c = (if iclosed c then Panics else Done (inf_after (c\<lparr>ibuf := ibuf c @ [v]\<rparr>)))"

definition inf_recv :: "'a inf \<Rightarrow> ('a option \<times> 'a inf) chan_res" where
  "inf_recv c =
     (case ibuf c of
        v # vs \<Rightarrow> Done (Some v, inf_after (c\<lparr>ibuf := vs\<rparr>))
      | [] \<Rightarrow> if odone c then Done (None, c) else Blocks)"

text \<open>\<open>Len\<close>: the goroutine offers the length in every round; when it has ended the channel \<open>length\<close> is closed.\<close>

definition inf_Len :: "'a inf \<Rightarrow> nat" where
  "inf_Len c = (if odone c then 0 else length (ibuf c))"

definition inf_Close :: "'a inf \<Rightarrow> 'a inf" where
  "inf_Close c = c\<lparr>iclosed := True\<rparr>"

text \<open>The goroutine receives from the closed input.\<close>

definition inf_notice :: "'a inf \<Rightarrow> 'a inf" where
  "inf_notice c = (if iclosed c \<and> \<not> inil c then inf_after (c\<lparr>inil := True\<rparr>) else c)"

section \<open>First in, first out\<close>

text \<open>
  The contract of a channel for its clients: what is queued, that a send appends to it, that a receive
  takes its head, and that a receive does not block while something is queued.
\<close>

locale fifo_channel =
  fixes send :: "'a \<Rightarrow> 'c \<Rightarrow> 'c chan_res"
    and recv :: "'c \<Rightarrow> ('a option \<times> 'c) chan_res"
    and shut :: "'c \<Rightarrow> 'c chan_res"
    and idle :: "'c \<Rightarrow> 'c"
    and queue :: "'c \<Rightarrow> 'a list"
  assumes send_queue: "send v c = Done c' \<Longrightarrow> queue c' = queue c @ [v]"
    and recv_queue: "recv c = Done (Some v, c') \<Longrightarrow> queue c = v # queue c'"
    and recv_closed: "recv c = Done (None, c') \<Longrightarrow> queue c = [] \<and> queue c' = []"
    and recv_ready: "queue c \<noteq> [] \<Longrightarrow> \<exists>v c'. recv c = Done (Some v, c')"
    and shut_queue: "shut c = Done c' \<Longrightarrow> queue c' = queue c"
    and idle_queue: "queue (idle c) = queue c"
begin

text \<open>A run of operations: what was sent, what was received, and the channel in the end.\<close>

inductive runs :: "'c \<Rightarrow> 'a list \<Rightarrow> 'a list \<Rightarrow> 'c \<Rightarrow> bool" where
  start: "runs c [] [] c"
| sent: "runs c ss rs d \<Longrightarrow> send v d = Done d' \<Longrightarrow> runs c (ss @ [v]) rs d'"
| got: "runs c ss rs d \<Longrightarrow> recv d = Done (Some v, d') \<Longrightarrow> runs c ss (rs @ [v]) d'"
| drained: "runs c ss rs d \<Longrightarrow> recv d = Done (None, d') \<Longrightarrow> runs c ss rs d'"
| closed: "runs c ss rs d \<Longrightarrow> shut d = Done d' \<Longrightarrow> runs c ss rs d'"
| idled: "runs c ss rs d \<Longrightarrow> runs c ss rs (idle d)"

lemma runs_order: "runs c ss rs d \<Longrightarrow> queue c @ ss = rs @ queue d"
proof (induction rule: runs.induct)
  case (sent c ss rs d v d')
  then show ?case using send_queue [OF sent(2)] by simp
next
  case (got c ss rs d v d')
  then show ?case using recv_queue [OF got(2)] by simp
next
  case (drained c ss rs d d')
  then show ?case using recv_closed [OF drained(2)] by simp
next
  case (closed c ss rs d d')
  then show ?case using shut_queue [OF closed(2)] by simp
qed (simp_all add: idle_queue)

text \<open>A receive after everything was received blocks or reports the end; before that it gives the next value.\<close>

lemma runs_next:
  assumes "runs c ss rs d" and "queue c = []" and "length rs < length ss"
  shows "\<exists>d'. recv d = Done (Some (ss ! length rs), d')"
proof -
  have q: "ss = rs @ queue d" using runs_order [OF assms(1)] assms(2) by simp
  then have "queue d \<noteq> []" using assms(3) by auto
  from recv_ready [OF this] obtain v d' where r: "recv d = Done (Some v, d')" by blast
  then have "ss ! length rs = v" using recv_queue [OF r] q by (simp add: nth_append)
  with r show ?thesis by blast
qed

end

interpretation infinity: fifo_channel inf_send inf_recv "\<lambda>c. Done (inf_Close c)" inf_notice ibuf
  by unfold_locales
    (auto simp: inf_send_def inf_recv_def inf_Close_def inf_notice_def inf_after_def neq_Nil_conv split: if_splits list.splits)

interpretation buffered: fifo_channel chan_send chan_recv chan_close "\<lambda>c. c" cbuf
  by unfold_locales
    (auto simp: chan_send_def chan_recv_def chan_close_def neq_Nil_conv split: if_splits list.splits)



section \<open>Closing\<close>

definition inf_wf :: "'a inf \<Rightarrow> bool" where
  "inf_wf c = ((inil c \<longrightarrow> iclosed c) \<and> odone c = (inil c \<and> ibuf c = []))"

lemma inf_wf_ops:
  "inf_wf NewChannel" "inf_wf c \<Longrightarrow> inf_send v c = Done c' \<Longrightarrow> inf_wf c'"
  "inf_wf c \<Longrightarrow> inf_recv c = Done (r, c') \<Longrightarrow> inf_wf c'" "inf_wf c \<Longrightarrow> inf_wf (inf_Close c)" "inf_wf c \<Longrightarrow> inf_wf (inf_notice c)"
  by (auto simp: inf_wf_def NewChannel_def inf_send_def inf_recv_def inf_Close_def inf_notice_def inf_after_def
      split: if_splits list.splits)

lemma inf_closed_recv:
  "inf_wf c \<Longrightarrow> iclosed c \<Longrightarrow> inf_recv (inf_notice c) \<noteq> Blocks"
  by (auto simp: inf_wf_def inf_recv_def inf_notice_def inf_after_def split: list.splits)

section \<open>channel.go\<close>

record channels =
  gvproxyReady :: "bool gochan"
  vmReady :: "bool gochan"
  syncTime :: "bool inf"

definition channel_init :: channels where
  "channel_init = \<lparr>gvproxyReady = chan_make 1, vmReady = chan_make 1, syncTime = NewChannel\<rparr>"

definition map_res :: "('a \<Rightarrow> 'b) \<Rightarrow> 'a chan_res \<Rightarrow> 'b chan_res" where
  "map_res f r = (case r of Blocks \<Rightarrow> Blocks | Panics \<Rightarrow> Panics | Done x \<Rightarrow> Done (f x))"

definition channel_Close :: "channels \<Rightarrow> channels chan_res" where
  "channel_Close c =
     (case chan_close (gvproxyReady c) of
        Done g \<Rightarrow>
          (case chan_close (vmReady c) of
             Done v \<Rightarrow> Done (c\<lparr>gvproxyReady := g, vmReady := v, syncTime := inf_Close (syncTime c)\<rparr>)
           | _ \<Rightarrow> Panics)
      | _ \<Rightarrow> Panics)"

definition NotifyGVProxyReady :: "channels \<Rightarrow> channels chan_res" where
  "NotifyGVProxyReady c = map_res (\<lambda>g. c\<lparr>gvproxyReady := g\<rparr>) (chan_send True (gvproxyReady c))"

definition ReceiveGVProxyReady :: "channels \<Rightarrow> (bool option \<times> channels) chan_res" where
  "ReceiveGVProxyReady c = map_res (\<lambda>(b, g). (b, c\<lparr>gvproxyReady := g\<rparr>)) (chan_recv (gvproxyReady c))"

definition NotifyVMReady :: "channels \<Rightarrow> channels chan_res" where
  "NotifyVMReady c = map_res (\<lambda>v. c\<lparr>vmReady := v\<rparr>) (chan_send True (vmReady c))"

definition ReceiveVMReady :: "channels \<Rightarrow> (bool option \<times> channels) chan_res" where
  "ReceiveVMReady c = map_res (\<lambda>(b, v). (b, c\<lparr>vmReady := v\<rparr>)) (chan_recv (vmReady c))"

definition NotifySyncTime :: "channels \<Rightarrow> channels chan_res" where
  "NotifySyncTime c = map_res (\<lambda>s. c\<lparr>syncTime := s\<rparr>) (inf_send True (syncTime c))"

definition ReceiveSyncTime :: "channels \<Rightarrow> (bool option \<times> channels) chan_res" where
  "ReceiveSyncTime c = map_res (\<lambda>(b, s). (b, c\<lparr>syncTime := s\<rparr>)) (inf_recv (syncTime c))"

text \<open>
  A notification waits for its receiver: the first \<open>NotifyVMReady\<close> on new channels returns at once, the
  receiver then gets exactly that notification, and a second one without a receiver in between blocks; after
  \<open>Close\<close> every notification panics, while a receiver still gets what was sent before and then the end.
\<close>

theorem vm_ready_once:
  "\<exists>c. NotifyVMReady channel_init = Done c \<and> NotifyVMReady c = Blocks \<and> ReceiveVMReady channel_init = Blocks \<and>
     (\<exists>d e. channel_Close c = Done d \<and> NotifyVMReady d = Panics \<and> NotifyGVProxyReady d = Panics \<and> NotifySyncTime d = Panics \<and>
        channel_Close d = Panics \<and> ReceiveVMReady d = Done (Some True, e) \<and> ReceiveVMReady e = Done (None, e))"
  by (simp add: NotifyVMReady_def ReceiveVMReady_def channel_Close_def NotifyGVProxyReady_def NotifySyncTime_def channel_init_def
      chan_make_def chan_send_def chan_recv_def chan_close_def inf_send_def inf_Close_def map_res_def)

end
