(* ===== verification/Vz.thy ===== *)
theory Vz
  imports Channel Go_Strings
begin

text \<open>
  The virtual machine as the program sees it (src/vendor/github.com/Code-Hex/vz/v3/virtualization.go). The
  execution states and their names are those of the Go code. The machine itself is the Virtualization framework of
  the host: a value of type \<open>'v\<close> with the operations \<open>'v vzops\<close>, which are parameters of the development.
\<close>

datatype vmstate =
    Stopped | Running | Paused | StateError | Starting | Pausing | Resuming | Stopping | Saving | Restoring

fun state_String :: "vmstate \<Rightarrow> string" where
  "state_String Stopped = ''VirtualMachineStateStopped''"
| "state_String Running = ''VirtualMachineStateRunning''"
| "state_String Paused = ''VirtualMachineStatePaused''"
| "state_String StateError = ''VirtualMachineStateError''"
| "state_String Starting = ''VirtualMachineStateStarting''"
| "state_String Pausing = ''VirtualMachineStatePausing''"
| "state_String Resuming = ''VirtualMachineStateResuming''"
| "state_String Stopping = ''VirtualMachineStateStopping''"
| "state_String Saving = ''VirtualMachineStateSaving''"
| "state_String Restoring = ''VirtualMachineStateRestoring''"

record 'v vzops =
  vzState :: "'v \<Rightarrow> vmstate"
  CanStart :: "'v \<Rightarrow> bool"
  CanPause :: "'v \<Rightarrow> bool"
  CanResume :: "'v \<Rightarrow> bool"
  CanRequestStop :: "'v \<Rightarrow> bool"
  CanStop :: "'v \<Rightarrow> bool"
  vzStart :: "'v \<Rightarrow> goerr option \<times> 'v"
  vzPause :: "'v \<Rightarrow> goerr option \<times> 'v"
  vzResume :: "'v \<Rightarrow> goerr option \<times> 'v"
  vzRequestStop :: "'v \<Rightarrow> (bool \<times> goerr option) \<times> 'v"
  vzStop :: "'v \<Rightarrow> goerr option \<times> 'v"

text \<open>
  What the documentation of the operations promises: a machine can be paused when it runs and resumed when it is paused;
  an operation that reports no error has brought the machine to the state it names.
\<close>

definition vz_documented :: "'v vzops \<Rightarrow> bool" where
  "vz_documented ops =
     ((\<forall>v. CanPause ops v = (vzState ops v = Running)) \<and>
      (\<forall>v. CanResume ops v = (vzState ops v = Paused)) \<and>
      (\<forall>v v'. vzPause ops v = (None, v') \<longrightarrow> vzState ops v' = Paused) \<and>
      (\<forall>v v'. vzResume ops v = (None, v') \<longrightarrow> vzState ops v' = Running) \<and>
      (\<forall>v v'. vzStop ops v = (None, v') \<longrightarrow> vzState ops v' = Stopped))"

text \<open>A machine that carries out every operation at once, as an instance of the parameter.\<close>

definition prompt_vz :: "vmstate vzops" where
  "prompt_vz = \<lparr>vzState = id, CanStart = (\<lambda>v. v = Stopped \<or> v = StateError), CanPause = (\<lambda>v. v = Running), CanResume = (\<lambda>v. v = Paused),
     CanRequestStop = (\<lambda>v. v = Running), CanStop = (\<lambda>v. v = Running \<or> v = Paused),
     vzStart = (\<lambda>v. (None, Running)),
     vzPause = (\<lambda>v. if v = Running then (None, Paused) else (Some (Msg ''invalid state''), v)),
     vzResume = (\<lambda>v. if v = Paused then (None, Running) else (Some (Msg ''invalid state''), v)),
     vzRequestStop = (\<lambda>v. if v = Running then ((True, None), Stopped) else ((False, None), v)),
     vzStop = (\<lambda>v. (None, Stopped))\<rparr>"

lemma prompt_vz_documented: "vz_documented prompt_vz"
  by (auto simp: vz_documented_def prompt_vz_def split: if_splits)

lemma state_String_inject [simp]: "state_String a = state_String b \<longleftrightarrow> a = b"
  by (cases a; cases b) simp_all

end
