(* ===== verification/Powermonitor.thy ===== *)
theory Powermonitor
  imports Vz
begin

text \<open>
  The reaction to the sleep and the awakening of the host (src/pkg/powermonitor/powermonitor.go) and the setting of the guest's
  clock over a connection to the guest (src/pkg/powermonitor/timesync.go). The activities come from a library, the machine is the
  parameter \<open>'v vzops\<close>, and what a write to the connection does is a parameter too.
\<close>

section \<open>Sleep and awakening\<close>

datatype activity = Awake | Sleep

definition activity_text :: "activity \<Rightarrow> string" where
  "activity_text a = (case a of Awake \<Rightarrow> ''awake'' | Sleep \<Rightarrow> ''sleep'')"

definition bool_text :: "bool \<Rightarrow> string" where
  "bool_text b = (if b then ''true'' else ''false'')"

text \<open>\<open>save\<close> is the option \<open>PowerSaveMode\<close>, which the HTTP server may change at any time.\<close>

record 'v power =
  pvm :: 'v
  save :: bool
  pchan :: channels
  plog :: "(string \<times> string) list"

definition p_log :: "string \<Rightarrow> string \<Rightarrow> 'v power \<Rightarrow> 'v power" where
  "p_log level m s = s\<lparr>plog := plog s @ [(level, m)]\<rparr>"

definition on_awake :: "'v vzops \<Rightarrow> 'v power \<Rightarrow> 'v power chan_res" where
  "on_awake ops s =
     (if \<not> save s
      then map_res (\<lambda>c. (p_log ''INFO'' ''not power save mode, notify sync time'' s)\<lparr>pchan := c\<rparr>) (NotifySyncTime (pchan s))
      else if \<not> CanResume ops (pvm s)
      then Done (p_log ''WARN'' (''VM can not resume, current state: '' @ state_String (vzState ops (pvm s))) s)
      else case vzResume ops (pvm s) of
             (Some e, v) \<Rightarrow> Done (p_log ''WARN'' (''resume VM failed: '' @ err_text e) (s\<lparr>pvm := v\<rparr>))
           | (None, v) \<Rightarrow> Done (p_log ''INFO'' ''resume VM success'' (s\<lparr>pvm := v\<rparr>)))"

definition on_sleep :: "'v vzops \<Rightarrow> 'v power \<Rightarrow> 'v power chan_res" where
  "on_sleep ops s =
     (if \<not> save s then Done s
      else if \<not> CanPause ops (pvm s)
      then Done (p_log ''WARN'' (''VM can not pause, current state: '' @ state_String (vzState ops (pvm s))) s)
      else case vzPause ops (pvm s) of
             (Some e, v) \<Rightarrow> Done (p_log ''WARN'' (''pause VM failed: '' @ err_text e) (s\<lparr>pvm := v\<rparr>))
           | (None, v) \<Rightarrow> Done (p_log ''INFO'' ''pause VM success'' (s\<lparr>pvm := v\<rparr>)))"

text \<open>One round of the loop over the activities.\<close>

definition on_activity :: "'v vzops \<Rightarrow> activity \<Rightarrow> 'v power \<Rightarrow> 'v power chan_res" where
  "on_activity ops a s =
     (let s1 = p_log ''INFO'' (''os '' @ activity_text a @ '', power save mode: '' @ bool_text (save s)) s
      in case a of Awake \<Rightarrow> on_awake ops s1 | Sleep \<Rightarrow> on_sleep ops s1)"

text \<open>The loop, until the channel of the activities is closed.\<close>

fun power_loop :: "'v vzops \<Rightarrow> activity list \<Rightarrow> 'v power \<Rightarrow> 'v power chan_res" where
  "power_loop ops [] s = Done (p_log ''INFO'' ''listen power monitor event exited'' s)"
| "power_loop ops (a # as) s =
     (case on_activity ops a s of Done t \<Rightarrow> power_loop ops as t | Blocks \<Rightarrow> Blocks | Panics \<Rightarrow> Panics)"

section \<open>Setting the clock\<close>

text \<open>A connection: the bytes the guest has got, and the number of writes so far.\<close>

record conn =
  wire :: string
  writes :: nat

text \<open>What the \<open>k\<close>-th write of some bytes does: how many are taken, and the error.\<close>

type_synonym writer = "nat \<Rightarrow> string \<Rightarrow> nat \<times> goerr option"

partial_function (option) write_loop :: "writer \<Rightarrow> string \<Rightarrow> nat \<Rightarrow> conn \<Rightarrow> (goerr option \<times> conn) option" where
  "write_loop wr data tot c =
     (let (now, err) = wr (writes c) (drop tot data);
          c1 = c\<lparr>wire := wire c @ take now (drop tot data), writes := Suc (writes c)\<rparr>
      in case err of
           Some e \<Rightarrow> Some (Some e, c1)
         | None \<Rightarrow> if tot + now = length data then Some (None, c1) else write_loop wr data (tot + now) c1)"

definition writeConn :: "writer \<Rightarrow> string \<Rightarrow> conn \<Rightarrow> (goerr option \<times> conn) option" where
  "writeConn wr data c = write_loop wr data 0 c"

text \<open>\<open>binary.LittleEndian.PutUint16\<close> of the length as a 16-bit number.\<close>

definition PutUint16 :: "nat \<Rightarrow> string" where
  "PutUint16 n = (let m = n mod 65536 in [char_of (m mod 256), char_of (m div 256)])"

definition sync_command :: "int \<Rightarrow> string" where
  "sync_command now = ''date -s @'' @ strconv_Itoa now"

text \<open>
  What the goroutine does for one received event, with the time \<open>now\<close>; without a connection nothing. The
  result is \<open>None\<close> if a write never returns.
\<close>

definition sync_round :: "writer \<Rightarrow> int \<Rightarrow> conn option \<Rightarrow> (goerr option \<times> conn option) option" where
  "sync_round wr now tc =
     (case tc of
        None \<Rightarrow> Some (None, None)
      | Some c \<Rightarrow>
          (let command = sync_command now
           in case writeConn wr (PutUint16 (length command)) c of
                None \<Rightarrow> None
              | Some (Some e, c1) \<Rightarrow> Some (Some (Wrap ''write time sync header error: '' e), Some c1)
              | Some (None, c1) \<Rightarrow>
                  (case writeConn wr command c1 of
                     None \<Rightarrow> None
                   | Some (Some e, c2) \<Rightarrow> Some (Some (Wrap ''write time sync command error: '' e), Some c2)
                   | Some (None, c2) \<Rightarrow> Some (None, Some c2))))"

text \<open>
  The goroutines of \<open>initTimeSync\<close>: one closes the listener when the context is done, one accepts the connection,
  one receives the events. \<open>timeSyncConn\<close> is the connection, and a result is the return of a goroutine. \<open>synced\<close> are
  the times that were sent.
\<close>

record timesync =
  ts_done :: bool
  ts_listening :: bool
  timeSyncConn :: "conn option"
  accept_ret :: "goerr option option"
  ts_chan :: channels
  sync_ret :: "goerr option option"
  synced :: "int list"

definition ts_new :: "channels \<Rightarrow> timesync" where
  "ts_new c = \<lparr>ts_done = False, ts_listening = True, timeSyncConn = None, accept_ret = None, ts_chan = c, sync_ret = None, synced = []\<rparr>"

definition initTimeSync :: "errno option \<Rightarrow> channels \<Rightarrow> goerr option \<times> timesync option" where
  "initTimeSync listen c =
     (case listen of
        Some e \<Rightarrow> (Some (Wrap ''listen time sync socket file error: '' (Errno e)), None)
      | None \<Rightarrow> (None, Some (ts_new c)))"

text \<open>The steps of these goroutines; the time of an event is a 64-bit number of seconds.\<close>

inductive ts_step :: "writer \<Rightarrow> timesync \<Rightarrow> timesync \<Rightarrow> bool" for wr where
  ts_cancel: "ts_step wr s (s\<lparr>ts_done := True\<rparr>)"
| ts_close: "ts_done s \<Longrightarrow> ts_listening s \<Longrightarrow> ts_step wr s (s\<lparr>ts_listening := False\<rparr>)"
| ts_accept: "accept_ret s = None \<Longrightarrow> ts_listening s \<Longrightarrow>
    ts_step wr s (s\<lparr>timeSyncConn := Some \<lparr>wire = [], writes = 0\<rparr>, accept_ret := Some None\<rparr>)"
| ts_accept_err: "accept_ret s = None \<Longrightarrow>
    ts_step wr s (s\<lparr>accept_ret := Some (Some (Wrap ''accept time sync socket file error: '' e))\<rparr>)"
| ts_ctx: "sync_ret s = None \<Longrightarrow> ts_done s \<Longrightarrow> ts_step wr s (s\<lparr>sync_ret := Some None\<rparr>)"
| ts_event: "sync_ret s = None \<Longrightarrow> - (2 ^ 63) \<le> now \<Longrightarrow> now < 2 ^ 63 \<Longrightarrow> ReceiveSyncTime (ts_chan s) = Done (b, c) \<Longrightarrow>
    sync_round wr now (timeSyncConn s) = Some (err, tc) \<Longrightarrow>
    ts_step wr s (s\<lparr>ts_chan := c, timeSyncConn := tc, sync_ret := map_option Some err,
      synced := (if err = None \<and> timeSyncConn s \<noteq> None then synced s @ [now] else synced s)\<rparr>)"
| ts_notify: "NotifySyncTime (ts_chan s) = Done c \<Longrightarrow> ts_step wr s (s\<lparr>ts_chan := c\<rparr>)"

text \<open>\<open>Setup\<close>: the error of the listener, or the two parts started.\<close>

definition power_Setup :: "errno option \<Rightarrow> 'v power \<Rightarrow> goerr option \<times> ('v power \<times> timesync) option" where
  "power_Setup listen s =
     (case initTimeSync listen (pchan s) of
        (Some e, _) \<Rightarrow> (Some e, None)
      | (None, None) \<Rightarrow> (None, None)
      | (None, Some ts) \<Rightarrow> (None, Some (p_log ''INFO'' ''power monitor started'' s, ts)))"

abbreviation ts_reachable :: "writer \<Rightarrow> timesync \<Rightarrow> bool" where
  "ts_reachable wr \<equiv> steps (ts_step wr) (ts_new channel_init)"

lemmas ts_start = steps_start [of "ts_step wr" "ts_new channel_init"] for wr
lemmas ts_next = steps_next [of "ts_step wr" "ts_new channel_init"] for wr

section \<open>The machine follows the host\<close>

text \<open>An operation of the machine succeeds whenever the machine says it can.\<close>

definition vz_willing :: "'v vzops \<Rightarrow> bool" where
  "vz_willing ops =
     ((\<forall>v. CanPause ops v \<longrightarrow> fst (vzPause ops v) = None) \<and> (\<forall>v. CanResume ops v \<longrightarrow> fst (vzResume ops v) = None))"

definition sync_queue :: "'v power \<Rightarrow> nat" where
  "sync_queue s = length (ibuf (syncTime (pchan s)))"

lemma on_activity_plain:
  assumes "\<not> save s" and "\<not> iclosed (syncTime (pchan s))"
  obtains t where "on_activity ops a s = Done t" "pvm t = pvm s" "save t = save s" "\<not> iclosed (syncTime (pchan t))"
    "sync_queue t = sync_queue s + (if a = Awake then 1 else 0)"
  using assms that
  by (cases a) (auto simp: on_activity_def on_awake_def on_sleep_def p_log_def NotifySyncTime_def map_res_def inf_send_def inf_after_def sync_queue_def Let_def)

lemma power_loop_plain:
  assumes "\<not> save s" and "\<not> iclosed (syncTime (pchan s))"
  shows "\<exists>t. power_loop ops as s = Done t \<and> pvm t = pvm s \<and> sync_queue t = sync_queue s + count_list as Awake"
  using assms
proof (induction as arbitrary: s)
  case Nil
  then show ?case by (simp add: p_log_def sync_queue_def)
next
  case (Cons a as)
  from on_activity_plain [OF Cons.prems] obtain u where
    u: "on_activity ops a s = Done u" "pvm u = pvm s" "save u = save s" "\<not> iclosed (syncTime (pchan u))"
      "sync_queue u = sync_queue s + (if a = Awake then 1 else 0)" .
  from Cons.IH [of u] u Cons.prems show ?case by (cases a) auto
qed

lemma on_activity_save:
  assumes "vz_documented ops" and "vz_willing ops" and "save s" and "vzState ops (pvm s) \<in> {Running, Paused}"
  obtains t where "on_activity ops a s = Done t" "save t" "pchan t = pchan s" "vzState ops (pvm t) = (if a = Sleep then Paused else Running)"
proof -
  have d: "CanPause ops v = (vzState ops v = Running)" "CanResume ops v = (vzState ops v = Paused)" for v
    using assms(1) by (simp_all add: vz_documented_def)
  have p: "\<exists>u. vzPause ops v = (None, u) \<and> vzState ops u = Paused" if "vzState ops v = Running" for v
    using assms(1,2) that unfolding vz_documented_def vz_willing_def by (metis prod.collapse)
  have r: "\<exists>u. vzResume ops v = (None, u) \<and> vzState ops u = Running" if "vzState ops v = Paused" for v
    using assms(1,2) that unfolding vz_documented_def vz_willing_def by (metis prod.collapse)
  show thesis
    using that assms(3,4) d p [of "pvm s"] r [of "pvm s"]
    by (cases a) (auto simp: on_activity_def on_awake_def on_sleep_def p_log_def Let_def)
qed

lemma power_loop_save:
  assumes "vz_documented ops" and "vz_willing ops" and "save s" and "vzState ops (pvm s) \<in> {Running, Paused}"
  shows "\<exists>t. power_loop ops as s = Done t \<and> pchan t = pchan s \<and>
     vzState ops (pvm t) = (if as = [] then vzState ops (pvm s) else if last as = Sleep then Paused else Running)"
  using assms(3,4)
proof (induction as arbitrary: s)
  case Nil
  then show ?case by (simp add: p_log_def)
next
  case (Cons a as)
  from on_activity_save [OF assms(1,2) Cons.prems, of a] obtain u where
    u: "on_activity ops a s = Done u" "save u" "pchan u = pchan s" "vzState ops (pvm u) = (if a = Sleep then Paused else Running)" .
  from Cons.IH [of u] u show ?case by (cases a) auto
qed


lemma prompt_vz_willing: "vz_willing prompt_vz"
  by (simp add: vz_willing_def prompt_vz_def)

definition host_awake :: "bool \<Rightarrow> vmstate power" where
  "host_awake b = \<lparr>pvm = Running, save = b, pchan = channel_init, plog = []\<rparr>"


text \<open>
  Switching the power-save mode off while the host sleeps leaves the machine paused: the awakening then
  only queues a setting of the clock.
\<close>

theorem power_mode_switched_off:
  "\<exists>t u. power_loop prompt_vz [Sleep] (host_awake True) = Done t \<and>
     power_loop prompt_vz [Awake] (t\<lparr>save := False\<rparr>) = Done u \<and> pvm u = Paused \<and> sync_queue u = 1"
  by (simp add: host_awake_def prompt_vz_def on_activity_def on_awake_def on_sleep_def p_log_def NotifySyncTime_def map_res_def inf_send_def
      inf_after_def sync_queue_def channel_init_def NewChannel_def)

section \<open>The clock on the wire\<close>

text \<open>What a connection does with a write: it takes no more than it is given, and something if it reports no error.\<close>

definition makes_progress :: "writer \<Rightarrow> bool" where
  "makes_progress wr = (\<forall>k p. p \<noteq> [] \<longrightarrow> fst (wr k p) \<le> length p \<and> (snd (wr k p) = None \<longrightarrow> 0 < fst (wr k p)))"

lemma write_loop_returns:
  assumes "makes_progress wr" and "tot < length data"
  shows "\<exists>err c'. write_loop wr data tot c = Some (err, c') \<and> prefix (wire c) (wire c') \<and> (err = None \<longrightarrow> wire c' = wire c @ drop tot data)"
  using assms(2)
proof (induction "length data - tot" arbitrary: tot c rule: less_induct)
  case less
  obtain n err where w: "wr (writes c) (drop tot data) = (n, err)" by fastforce
  have "drop tot data \<noteq> []" using less.prems by simp
  then have n: "n \<le> length data - tot" "err = None \<Longrightarrow> 0 < n"
    using assms(1) w by (auto simp: makes_progress_def dest!: spec [of _ "writes c"] spec [of _ "drop tot data"])
  let ?c = "c\<lparr>wire := wire c @ take n (drop tot data), writes := Suc (writes c)\<rparr>"
  show ?case
  proof (cases "err = None \<and> tot + n \<noteq> length data")
    case True
    then have "\<exists>err c'. write_loop wr data (tot + n) ?c = Some (err, c') \<and> prefix (wire ?c) (wire c') \<and> (err = None \<longrightarrow> wire c' = wire ?c @ drop (tot + n) data)"
      using n less.prems by (intro less.hyps) auto
    moreover have "write_loop wr data tot c = write_loop wr data (tot + n) ?c"
      using w True by (subst write_loop.simps) simp
    moreover have "take n (drop tot data) @ drop (tot + n) data = drop tot data" by (metis append_take_drop_id drop_drop add.commute)
    ultimately show ?thesis by (auto simp: prefix_def)
  next
    case False
    with w n less.prems show ?thesis by (subst write_loop.simps) (auto simp: Let_def split: option.splits)
  qed
qed

lemma writeConn_returns:
  assumes "makes_progress wr" and "data \<noteq> []"
  obtains err c' where "writeConn wr data c = Some (err, c')" "prefix (wire c) (wire c')" "err = None \<Longrightarrow> wire c' = wire c @ data"
  using write_loop_returns [OF assms(1), of 0 data c] assms(2) by (auto simp: writeConn_def)

text \<open>How the guest reads the stream: two bytes of length, then that many bytes.\<close>

function parse_frames :: "string \<Rightarrow> string list \<times> string" where
  "parse_frames s =
     (case s of
        a # b # r \<Rightarrow>
          (let n = of_char a + 256 * of_char b
           in if length r < n then ([], s) else map_prod (\<lambda>fs. take n r # fs) id (parse_frames (drop n r)))
      | _ \<Rightarrow> ([], s))"
  by pat_completeness auto
termination
  by (relation "measure length") auto

declare parse_frames.simps [simp del]

definition frame :: "string \<Rightarrow> string" where
  "frame c = PutUint16 (length c) @ c"

lemma parse_frames_frame:
  assumes "length c < 65536"
  shows "parse_frames (frame c @ r) = map_prod (\<lambda>fs. c # fs) id (parse_frames r)"
proof -
  have "length c div 256 < 256" using assms by (simp add: div_less_iff_less_mult)
  then show ?thesis
    using assms by (subst parse_frames.simps) (simp add: frame_def PutUint16_def Let_def)
qed

lemma parse_frames_all:
  "\<forall>c \<in> set cs. length c < 65536 \<Longrightarrow> parse_frames (concat (map frame cs) @ r) = map_prod (\<lambda>fs. cs @ fs) id (parse_frames r)"
  by (induction cs) (simp_all add: parse_frames_frame map_prod_def split_beta)

lemma length_sync_command:
  assumes "- (2 ^ 63) \<le> now" and "now < 2 ^ 63"
  shows "length (sync_command now) < 65536"
proof -
  have "length (nat_digits n) \<le> 20" if "n \<le> 2 ^ 63" for n
    using that by (intro length_nat_digits) (simp_all add: power_less_imp_less_exp)
  then have "length (nat_digits (nat (- now))) \<le> 20" "length (nat_digits (nat now)) \<le> 20" using assms by simp_all
  then show ?thesis by (simp add: sync_command_def strconv_Itoa_def)
qed

lemma sync_round_wire:
  assumes "makes_progress wr"
  obtains err c' where "sync_round wr now (Some c) = Some (err, Some c')" "prefix (wire c) (wire c')"
    "err = None \<Longrightarrow> wire c' = wire c @ frame (sync_command now)"
proof -
  let ?d = "sync_command now"
  obtain e1 c1 where 1: "writeConn wr (PutUint16 (length ?d)) c = Some (e1, c1)" "prefix (wire c) (wire c1)"
    "e1 = None \<Longrightarrow> wire c1 = wire c @ PutUint16 (length ?d)"
    by (rule writeConn_returns [OF assms]) (auto simp: PutUint16_def Let_def)
  obtain e2 c2 where 2: "writeConn wr ?d c1 = Some (e2, c2)" "prefix (wire c1) (wire c2)" "e2 = None \<Longrightarrow> wire c2 = wire c1 @ ?d"
    by (rule writeConn_returns [OF assms]) (auto simp: sync_command_def)
  show thesis
  proof (cases "e1")
    case None
    have "prefix (wire c) (wire c2)" using 1(2) 2(2) by (rule prefix_order.trans)
    with None 1 2 show ?thesis
      by (intro that [of "map_option (Wrap ''write time sync command error: '') e2" c2])
        (auto simp: sync_round_def frame_def Let_def split: option.splits)
  next
    case (Some e)
    with 1 show ?thesis
      by (intro that [of "Some (Wrap ''write time sync header error: '' e)" c1]) (auto simp: sync_round_def Let_def)
  qed
qed

definition ts_inv :: "timesync \<Rightarrow> bool" where
  "ts_inv s = ((\<forall>t \<in> set (synced s). length (sync_command t) < 65536) \<and>
     (case timeSyncConn s of
        None \<Rightarrow> synced s = []
      | Some c \<Rightarrow> accept_ret s \<noteq> None \<and> prefix (concat (map (frame \<circ> sync_command) (synced s))) (wire c) \<and>
          (sync_ret s \<in> {None, Some None} \<longrightarrow> wire c = concat (map (frame \<circ> sync_command) (synced s)))))"

lemma ts_inv_step: "ts_step wr s t \<Longrightarrow> makes_progress wr \<Longrightarrow> ts_inv s \<Longrightarrow> ts_inv t"
proof (induction rule: ts_step.induct)
  case (ts_event s now b c err tc)
  note l = length_sync_command [OF ts_event(2,3)]
  show ?case
  proof (cases "timeSyncConn s")
    case None
    with ts_event show ?thesis by (auto simp: ts_inv_def sync_round_def)
  next
    case (Some k)
    obtain e k' where
      r: "sync_round wr now (Some k) = Some (e, Some k')" "prefix (wire k) (wire k')" "e = None \<Longrightarrow> wire k' = wire k @ frame (sync_command now)"
      using sync_round_wire [OF ts_event(6), of now k] by metis
    with ts_event Some l show ?thesis
      by (cases e) (auto simp: ts_inv_def intro: prefix_order.trans)
  qed
qed (auto simp: ts_inv_def split: option.splits)

interpretation ts: safe_steps "ts_step wr" "\<lambda>s. makes_progress wr \<longrightarrow> ts_inv s" for wr
  by unfold_locales (blast intro: ts_inv_step)

lemma ts_inv_reachable: "ts_reachable wr s \<Longrightarrow> makes_progress wr \<Longrightarrow> ts_inv s"
  by (drule ts.reached) (simp_all add: ts_new_def ts_inv_def)

text \<open>
  C12: The guest can read the clock commands. On a connection that makes progress, however it splits the writes, every setting of the
  clock returns, and in every reachable state the bytes sent decompose into the length-prefixed commands of the times sent so far, in
  order; there is an incomplete rest only after a write has failed, which ends the goroutine.
\<close>

theorem timesync_wire:
  assumes "makes_progress wr" and "ts_reachable wr s" and "timeSyncConn s = Some c"
  shows "(\<exists>more rest. parse_frames (wire c) = (map sync_command (synced s) @ more, rest) \<and>
     (sync_ret s \<in> {None, Some None} \<longrightarrow> more = [] \<and> rest = [])) \<and>
     (\<exists>r. sync_round wr now (timeSyncConn s) = Some r)"
proof -
  have i: "ts_inv s" by (rule ts_inv_reachable [OF assms(2,1)])
  have l: "\<forall>c \<in> set (map sync_command (synced s)). length c < 65536" using i by (auto simp: ts_inv_def)
  obtain r where r: "wire c = concat (map frame (map sync_command (synced s))) @ r" "sync_ret s \<in> {None, Some None} \<Longrightarrow> r = []"
    using i assms(3) by (auto simp: ts_inv_def prefix_def)
  from parse_frames_all [OF l, of r] r(1)
  have p: "parse_frames (wire c) = (map sync_command (synced s) @ fst (parse_frames r), snd (parse_frames r))" by (simp add: map_prod_def split_beta)
  have e: "parse_frames [] = ([], [])" by (simp add: parse_frames.simps)
  from sync_round_wire [OF assms(1), of now c] assms(3) have "\<exists>r. sync_round wr now (timeSyncConn s) = Some r" by metis
  with p e r(2) show ?thesis by auto
qed

text \<open>A connection that takes one byte at a time.\<close>

definition slow_writer :: writer where
  "slow_writer k p = (1, None)"

definition ts_connected :: timesync where
  "ts_connected = \<lparr>ts_done = False, ts_listening = True, timeSyncConn = Some \<lparr>wire = [], writes = 0\<rparr>, accept_ret = Some None,
     ts_chan = channel_init, sync_ret = None, synced = []\<rparr>"

theorem timesync_wire_witness:
  "ts_reachable slow_writer ts_connected \<and> (\<exists>r. sync_round slow_writer 1700000000 (timeSyncConn ts_connected) = Some r)"
proof -
  have w: "makes_progress slow_writer" by (auto simp: makes_progress_def slow_writer_def Suc_le_eq)
  let ?s = "ts_connected\<lparr>timeSyncConn := None, accept_ret := None\<rparr>"
  have "ts_reachable slow_writer ?s" using ts_start [of slow_writer] by (simp add: ts_new_def ts_connected_def)
  moreover have "ts_step slow_writer ?s (?s\<lparr>timeSyncConn := Some \<lparr>wire = [], writes = 0\<rparr>, accept_ret := Some None\<rparr>)"
    by (rule ts_accept) (simp_all add: ts_connected_def)
  ultimately have r: "ts_reachable slow_writer ts_connected" by (auto simp: ts_connected_def dest: ts_next)
  from timesync_wire [OF w r, of _ 1700000000] r show ?thesis by (simp add: ts_connected_def)
qed

end
