(* ===== verification/Event.thy ===== *)
theory Event
  imports Channel Logger
begin

text \<open>
  The events sent to the application (src/pkg/ipc/event/event.go): notifications are queued on an unbounded
  channel and sent one by one as HTTP requests by one goroutine; \<open>NotifyExit\<close> waits until its own
  event has been sent. What the server answers to the \<open>n\<close>-th request is the parameter \<open>client\<close>.
\<close>

record datum =
  dname :: string
  dmessage :: string

definition kApp :: string where "kApp = ''app''"
definition kError :: string where "kError = ''error''"
definition kExit :: string where "kExit = ''exit''"

definition app_events :: "string list" where
  "app_events = [''Initializing'', ''GVProxyReady'', ''IgnitionProgress'', ''IgnitionDone'', ''Ready'']"

text \<open>Where the goroutine and the caller of \<open>NotifyExit\<close> are.\<close>

datatype sender_pc = Receiving | Signalling | Gone
datatype exit_pc = NotCalled | Waiting | Closing | ExitDone

text \<open>
  The state: the channel, the requests made and the lines logged, oldest first; \<open>posted\<close> and \<open>taken\<close> are
  the notifications that went into the channel and that came out of it.
\<close>

record evstate =
  ech :: "datum inf"
  requests :: "string list"
  elog :: "(string \<times> string) list"
  sender :: sender_pc
  exiter :: exit_pc
  waitDone_closed :: bool
  posted :: "datum list"
  taken :: "datum list"

definition event_new :: evstate where
  "event_new = \<lparr>ech = NewChannel, requests = [], elog = [], sender = Receiving, exiter = NotCalled,
     waitDone_closed = False, posted = [], taken = []\<rparr>"

text \<open>\<open>Setup\<close>: without a socket path there is no event state, and notifications do nothing.\<close>

definition event_Setup ::
  "string \<Rightarrow> string \<Rightarrow> string \<Rightarrow> string \<Rightarrow> 'a loghost_scheme \<Rightarrow> (goerr option \<times> evstate option) \<times> 'a loghost_scheme" where
  "event_Setup now logPath name sock h =
     (case logger_New logPath (name @ ''-event'') h of
        (Inl e, h1) \<Rightarrow> ((Some e, None), h1)
      | (Inr log, h1) \<Rightarrow>
          if sock = [] then ((None, None), log_Info log now ''no socket path, event will not be sent'' h1)
          else ((None, Some event_new), h1))"

definition event_uri :: "datum \<Rightarrow> string" where
  "event_uri d = ''http://ovm/notify?event='' @ dname d @ ''&message='' @ url_QueryEscape (dmessage d)"

text \<open>The verb \<open>%+v\<close> of a datum.\<close>

definition datum_text :: "datum \<Rightarrow> string" where
  "datum_text d = ''{name:'' @ dname d @ '' message:'' @ dmessage d @ ''}''"

definition deliver_log :: "goerr + nat \<Rightarrow> datum \<Rightarrow> (string \<times> string) list" where
  "deliver_log answer d =
     (''INFO'', ''notify '' @ dname d @ '' event to '' @ event_uri d) #
     (case answer of
        Inl e \<Rightarrow> [(''WARN'', ''notify '' @ datum_text d @ '' event failed: '' @ err_text e)]
      | Inr code \<Rightarrow>
          if code \<noteq> 200
          then [(''WARN'', ''notify '' @ datum_text d @ '' event failed, status code is: '' @ strconv_Itoa (int code))]
          else [])"

text \<open>One round of the goroutine's loop, for the datum it received.\<close>

definition deliver :: "(nat \<Rightarrow> string \<Rightarrow> goerr + nat) \<Rightarrow> datum \<Rightarrow> evstate \<Rightarrow> evstate" where
  "deliver client d s =
     s\<lparr>requests := requests s @ [event_uri d],
       elog := elog s @ deliver_log (client (length (requests s)) (event_uri d)) d,
       taken := taken s @ [d],
       sender := (if dname d = kExit then Signalling else Receiving)\<rparr>"

definition post :: "datum \<Rightarrow> evstate \<Rightarrow> evstate chan_res" where
  "post d s = map_res (\<lambda>c. s\<lparr>ech := c, posted := posted s @ [d]\<rparr>) (inf_send d (ech s))"

definition NotifyApp :: "string \<Rightarrow> evstate option \<Rightarrow> evstate option chan_res" where
  "NotifyApp name e =
     (case e of None \<Rightarrow> Done None | Some s \<Rightarrow> map_res Some (post \<lparr>dname = kApp, dmessage = name\<rparr> s))"

definition NotifyError :: "goerr \<Rightarrow> evstate option \<Rightarrow> evstate option chan_res" where
  "NotifyError err e =
     (case e of None \<Rightarrow> Done None | Some s \<Rightarrow> map_res Some (post \<lparr>dname = kError, dmessage = err_text err\<rparr> s))"

definition exit_datum :: datum where
  "exit_datum = \<lparr>dname = kExit, dmessage = []\<rparr>"

text \<open>The first statement of \<open>NotifyExit\<close>; the caller then waits on the channel \<open>waitDone\<close>.\<close>

definition NotifyExit_send :: "evstate \<Rightarrow> evstate chan_res" where
  "NotifyExit_send s = map_res (\<lambda>t. t\<lparr>exiter := Waiting\<rparr>) (post exit_datum s)"

text \<open>Its last two statements, after the receive from \<open>waitDone\<close>.\<close>

definition NotifyExit_close :: "evstate \<Rightarrow> evstate" where
  "NotifyExit_close s = s\<lparr>waitDone_closed := True, ech := inf_Close (ech s), exiter := ExitDone\<rparr>"

inductive event_step :: "(nat \<Rightarrow> string \<Rightarrow> goerr + nat) \<Rightarrow> evstate \<Rightarrow> evstate \<Rightarrow> bool" for client where
  notify_app: "NotifyApp name (Some s) = Done (Some t) \<Longrightarrow> event_step client s t"
| notify_error: "NotifyError err (Some s) = Done (Some t) \<Longrightarrow> event_step client s t"
| notify_exit: "exiter s = NotCalled \<Longrightarrow> NotifyExit_send s = Done t \<Longrightarrow> event_step client s t"
| send_event: "sender s = Receiving \<Longrightarrow> inf_recv (ech s) = Done (Some d, c) \<Longrightarrow> event_step client s (deliver client d (s\<lparr>ech := c\<rparr>))"
| range_ends: "sender s = Receiving \<Longrightarrow> inf_recv (ech s) = Done (None, c) \<Longrightarrow> event_step client s (s\<lparr>ech := c, sender := Gone\<rparr>)"
| wait_done: "sender s = Signalling \<Longrightarrow> exiter s = Waiting \<Longrightarrow> event_step client s (s\<lparr>sender := Gone, exiter := Closing\<rparr>)"
| exit_close: "exiter s = Closing \<Longrightarrow> event_step client s (NotifyExit_close s)"
| buffer_notices: "event_step client s (s\<lparr>ech := inf_notice (ech s)\<rparr>)"

abbreviation event_reachable :: "(nat \<Rightarrow> string \<Rightarrow> goerr + nat) \<Rightarrow> evstate \<Rightarrow> bool" where
  "event_reachable client \<equiv> steps (event_step client) event_new"

lemmas event_start = steps_start [of "event_step client" event_new] for client
lemmas event_next = steps_next [of "event_step client" event_new] for client

inductive_cases event_stepE: "event_step client s t"

section \<open>Order\<close>

lemma post_Done:
  assumes "post d s = Done t"
  shows "t = s\<lparr>ech := ech t, posted := posted s @ [d]\<rparr>" and "ibuf (ech t) = ibuf (ech s) @ [d]" and "iclosed (ech t) = iclosed (ech s)"
    and "\<not> iclosed (ech s)"
  using assms by (auto simp: post_def map_res_def inf_send_def inf_after_def split: chan_res.splits if_splits)

lemma keys_distinct [simp]: "kApp \<noteq> kExit" "kError \<noteq> kExit" "kExit \<noteq> kApp" "kExit \<noteq> kError"
  by (simp_all add: kApp_def kError_def kExit_def)

text \<open>
  The invariant: everything posted is sent or queued, in order; the exit event is posted once, by \<open>NotifyExit\<close>;
  while the goroutine receives it has not sent the exit event, and the exit event is the last one it sends.
\<close>

definition exits :: "datum list \<Rightarrow> nat" where
  "exits ds = length (filter (\<lambda>d. dname d = kExit) ds)"

definition ends_exit :: "datum list \<Rightarrow> bool" where
  "ends_exit ds = (ds \<noteq> [] \<and> last ds = exit_datum)"

definition event_inv :: "evstate \<Rightarrow> bool" where
  "event_inv s =
     (posted s = taken s @ ibuf (ech s) \<and> requests s = map event_uri (taken s) \<and>
      exits (posted s) = (if exiter s = NotCalled then 0 else 1) \<and>
      (sender s = Receiving \<longrightarrow> exits (taken s) = 0) \<and>
      (sender s = Signalling \<longrightarrow> ends_exit (taken s) \<and> exiter s = Waiting) \<and>
      (exiter s \<in> {Closing, ExitDone} \<longrightarrow> sender s = Gone \<and> ends_exit (taken s)) \<and>
      iclosed (ech s) = (exiter s = ExitDone) \<and> inf_wf (ech s) \<and>
      (exiter s \<in> {NotCalled, Waiting} \<longrightarrow> sender s \<noteq> Gone) \<and>
      (\<forall>d \<in> set (posted s). dname d = kExit \<longrightarrow> d = exit_datum))"

lemma exits_append [simp]: "exits (xs @ ys) = exits xs + exits ys"
  by (simp add: exits_def)

lemma exits_simps [simp]: "exits [] = 0" "exits (d # ds) = (if dname d = kExit then Suc (exits ds) else exits ds)"
  by (simp_all add: exits_def)

lemma exit_datum_name [simp]: "dname exit_datum = kExit"
  by (simp add: exit_datum_def)

lemma ends_exit_snoc [simp]: "ends_exit (ds @ [d]) = (d = exit_datum)"
  by (simp add: ends_exit_def)

lemma event_inv_new: "event_inv event_new"
  by (simp add: event_inv_def event_new_def NewChannel_def inf_wf_def)

text \<open>A notification that is not the exit event keeps the invariant; so does the exit event of \<open>NotifyExit\<close>.\<close>

lemma post_wf: "inf_wf (ech s) \<Longrightarrow> post d s = Done t \<Longrightarrow> inf_wf (ech t)"
  by (auto simp: post_def map_res_def intro: inf_wf_ops(2) split: chan_res.splits)

lemma event_inv_post:
  assumes "event_inv s" and "post d s = Done t" and "dname d \<noteq> kExit"
  shows "event_inv t"
proof -
  note p = post_Done [OF assms(2)]
  have w: "inf_wf (ech t)" using assms(1,2) post_wf by (auto simp: event_inv_def)
  have "event_inv (s\<lparr>ech := ech t, posted := posted s @ [d]\<rparr>)"
    using assms(1,3) p(2,3,4) w by (cases "sender s"; cases "exiter s"; simp add: event_inv_def)
  then show ?thesis by (subst p(1))
qed

lemma event_inv_exit_send:
  assumes "event_inv s" and "exiter s = NotCalled" and "NotifyExit_send s = Done t"
  shows "event_inv t"
proof -
  obtain u where u: "post exit_datum s = Done u" "t = u\<lparr>exiter := Waiting\<rparr>"
    using assms(3) by (auto simp: NotifyExit_send_def map_res_def split: chan_res.splits)
  note p = post_Done [OF u(1)]
  have w: "inf_wf (ech u)" using assms(1) u(1) post_wf by (auto simp: event_inv_def)
  have "event_inv (s\<lparr>ech := ech u, posted := posted s @ [exit_datum], exiter := Waiting\<rparr>)"
    using assms(1,2) p(2,3,4) w by (auto simp: event_inv_def)
  moreover have "t = s\<lparr>ech := ech u, posted := posted s @ [exit_datum], exiter := Waiting\<rparr>"
    unfolding u(2) by (subst p(1)) simp
  ultimately show ?thesis by (rule ssubst [rotated])
qed

lemma event_inv_deliver:
  assumes "event_inv s" and "sender s = Receiving" and "inf_recv (ech s) = Done (Some d, c)"
  shows "event_inv (deliver client d (s\<lparr>ech := c\<rparr>))"
proof -
  have q: "ibuf (ech s) = d # ibuf c" by (rule infinity.recv_queue [OF assms(3)])
  have k: "iclosed c = iclosed (ech s)" using assms(3) by (auto simp: inf_recv_def inf_after_def split: list.splits if_splits)
  have w: "inf_wf c" using assms(1,3) inf_wf_ops(3) by (auto simp: event_inv_def)
  have "exiter s \<noteq> Closing" "exiter s \<noteq> ExitDone" using assms(1,2) by (auto simp: event_inv_def)
  with assms(1,2) q k w show ?thesis
    by (cases "exiter s") (auto simp: event_inv_def deliver_def split: if_splits)
qed

lemma event_inv_step: "event_step client s t \<Longrightarrow> event_inv s \<Longrightarrow> event_inv t"
proof (induction rule: event_step.induct)
  case (notify_app name s t)
  then show ?case by (auto simp: NotifyApp_def map_res_def intro: event_inv_post split: chan_res.splits)
next
  case (notify_error err s t)
  then show ?case by (auto simp: NotifyError_def map_res_def intro: event_inv_post split: chan_res.splits)
next
  case (range_ends s c)
  then have "odone (ech s)" by (auto simp: inf_recv_def split: list.splits if_splits)
  with range_ends show ?case by (auto simp: event_inv_def inf_wf_def)
next
  case (wait_done s)
  then show ?case by (auto simp: event_inv_def)
next
  case (exit_close s)
  then show ?case by (auto simp: event_inv_def NotifyExit_close_def inf_Close_def inf_wf_def)
next
  case (buffer_notices s)
  then have "inf_wf (inf_notice (ech s))" by (intro inf_wf_ops(5)) (simp add: event_inv_def)
  moreover have "ibuf (inf_notice (ech s)) = ibuf (ech s)" "iclosed (inf_notice (ech s)) = iclosed (ech s)"
    by (simp_all add: inf_notice_def inf_after_def)
  ultimately show ?case
    using buffer_notices by (cases "sender s"; cases "exiter s"; simp add: event_inv_def)
qed (auto intro: event_inv_exit_send event_inv_deliver)

interpretation events: safe_steps "event_step client" event_inv for client
  by unfold_locales (rule event_inv_step)

lemma event_inv_reachable: "event_reachable client s \<Longrightarrow> event_inv s"
  by (erule events.reached) (rule event_inv_new)

lemma event_inv_exits: "event_inv s \<Longrightarrow> exits (posted s) = (if exiter s = NotCalled then 0 else 1)"
  unfolding event_inv_def by blast

lemma exit_last:
  assumes "event_reachable client s" and "exiter s = ExitDone"
  shows "\<exists>before late. posted s = before @ exit_datum # late \<and> exits before = 0 \<and> exits late = 0 \<and>
     requests s = map event_uri (before @ [exit_datum]) \<and> NotifyApp n (Some s) = Panics \<and> NotifyError e (Some s) = Panics"
proof -
  have i: "event_inv s" by (rule event_inv_reachable [OF assms(1)])
  then obtain ds where ds: "taken s = ds @ [exit_datum]"
    using assms(2) append_butlast_last_id [of "taken s"] by (simp add: event_inv_def ends_exit_def) metis
  have p: "posted s = ds @ exit_datum # ibuf (ech s)" using i ds by (simp add: event_inv_def)
  moreover have "exits (posted s) = 1" using event_inv_exits [OF i] assms(2) by simp
  moreover have "requests s = map event_uri (ds @ [exit_datum])" using i ds by (simp add: event_inv_def)
  moreover have "iclosed (ech s)" using i assms(2) by (simp add: event_inv_def)
  ultimately show ?thesis
    by (intro exI [of _ ds] exI [of _ "ibuf (ech s)"]) (simp add: NotifyApp_def NotifyError_def post_def inf_send_def map_res_def)
qed

text \<open>
  C10: \<open>NotifyExit\<close> returns only after every notification posted before it was sent, in the order of posting,
  and the exit event last; nothing is sent after it. From then on a notification panics, the channel being closed.
\<close>

theorem exit_event_last:
  assumes "event_reachable client s" and "exiter s = ExitDone"
  shows "\<exists>before late. posted s = before @ exit_datum # late \<and> exits before = 0 \<and> exits late = 0 \<and>
     requests s = map event_uri (before @ [exit_datum]) \<and> NotifyApp n (Some s) = Panics \<and> NotifyError e (Some s) = Panics"
  using assms by (rule exit_last)

section \<open>Progress\<close>

text \<open>
  What the goroutine of \<open>Setup\<close> and the caller in \<open>NotifyExit\<close> do next when no one else runs.
\<close>

definition sender_round :: "(nat \<Rightarrow> string \<Rightarrow> goerr + nat) \<Rightarrow> evstate \<Rightarrow> evstate" where
  "sender_round client s =
     (case sender s of
        Receiving \<Rightarrow>
          (case inf_recv (ech s) of
             Done (Some d, c) \<Rightarrow> deliver client d (s\<lparr>ech := c\<rparr>)
           | Done (None, c) \<Rightarrow> s\<lparr>ech := c, sender := Gone\<rparr>
           | _ \<Rightarrow> s)
      | Signalling \<Rightarrow> if exiter s = Waiting then s\<lparr>sender := Gone, exiter := Closing\<rparr> else s
      | Gone \<Rightarrow> if exiter s = Closing then NotifyExit_close s else s)"

lemma sender_round_step: "sender_round client s = s \<or> event_step client s (sender_round client s)"
  by (auto simp: sender_round_def split: sender_pc.splits chan_res.splits option.splits intro: event_step.intros)

text \<open>While the exit event is the \<open>n\<close>-th in the channel, \<open>n + 1\<close> rounds send it.\<close>

lemma sender_rounds_drain:
  assumes "event_inv s" and "sender s = Receiving" and "exiter s = Waiting"
    and "ibuf (ech s) = ds @ exit_datum # late" and "exits ds = 0"
  shows "\<exists>t. (sender_round client ^^ Suc (length ds)) s = t \<and> sender t = Signalling \<and> exiter t = Waiting \<and>
     posted t = posted s \<and> event_inv t"
  using assms
proof (induction ds arbitrary: s)
  case Nil
  then obtain c where c: "inf_recv (ech s) = Done (Some exit_datum, c)" by (auto simp: inf_recv_def)
  then have "sender_round client s = deliver client exit_datum (s\<lparr>ech := c\<rparr>)" using Nil by (simp add: sender_round_def)
  moreover have "event_inv (deliver client exit_datum (s\<lparr>ech := c\<rparr>))" by (rule event_inv_deliver [OF Nil(1,2) c])
  ultimately show ?case using Nil(3) by (simp add: deliver_def)
next
  case (Cons d ds)
  then obtain c where c: "inf_recv (ech s) = Done (Some d, c)" by (auto simp: inf_recv_def)
  let ?t = "deliver client d (s\<lparr>ech := c\<rparr>)"
  have r: "sender_round client s = ?t" using c Cons(3) by (simp add: sender_round_def)
  have "ibuf c = ds @ exit_datum # late" using infinity.recv_queue [OF c] Cons(5) by simp
  moreover have "event_inv ?t" by (rule event_inv_deliver [OF Cons(2,3) c])
  moreover have "dname d \<noteq> kExit" "exits ds = 0" using Cons(6) by (auto split: if_splits)
  ultimately have "\<exists>t. (sender_round client ^^ Suc (length ds)) ?t = t \<and> sender t = Signalling \<and> exiter t = Waiting \<and>
      posted t = posted ?t \<and> event_inv t"
    using Cons(4) by (intro Cons.IH) (simp_all add: deliver_def)
  moreover have "posted ?t = posted s" by (simp add: deliver_def)
  ultimately show ?case by (simp add: r funpow_swap1)
qed

lemma event_inv_waiting:
  assumes "event_inv s" and "exiter s = Waiting" and "sender s = Receiving"
  obtains ds late where "ibuf (ech s) = ds @ exit_datum # late" "exits ds = 0"
proof -
  have "exits (taken s @ ibuf (ech s)) = 1" "exits (taken s) = 0" using assms unfolding event_inv_def by force+
  then have "exits (ibuf (ech s)) = 1" by simp
  then have "\<exists>d \<in> set (ibuf (ech s)). dname d = kExit" by (auto simp: exits_def filter_empty_conv dest!: arg_cong [where f = "\<lambda>n. n = 0"])
  then obtain ds d late where "ibuf (ech s) = ds @ d # late" "dname d = kExit" "\<forall>x \<in> set ds. dname x \<noteq> kExit"
    by (rule split_list_first_propE) blast
  moreover then have "d = exit_datum" using assms(1) by (auto simp: event_inv_def)
  moreover have "exits ds = 0" using calculation(3) by (simp add: exits_def filter_empty_conv)
  ultimately show thesis using that by blast
qed

lemma exit_returns:
  assumes "event_reachable client s" and "exiter s = Waiting"
  shows "\<exists>k \<le> length (ibuf (ech s)) + 2. exiter ((sender_round client ^^ k) s) = ExitDone \<and>
     posted ((sender_round client ^^ k) s) = posted s \<and>
     (\<forall>u. sender_round client u = u \<or> event_step client u (sender_round client u))"
proof -
  have i: "event_inv s" by (rule event_inv_reachable [OF assms(1)])
  have fin: "exiter ((sender_round client ^^ 2) t) = ExitDone \<and> posted ((sender_round client ^^ 2) t) = posted t"
    if "sender t = Signalling" "exiter t = Waiting" for t
    using that by (simp add: numeral_2_eq_2 sender_round_def NotifyExit_close_def)
  have "\<exists>k \<le> length (ibuf (ech s)). let t = (sender_round client ^^ k) s in sender t = Signalling \<and> exiter t = Waiting \<and> posted t = posted s"
  proof (cases "sender s")
    case Receiving
    from event_inv_waiting [OF i assms(2) Receiving] obtain ds late where q: "ibuf (ech s) = ds @ exit_datum # late" "exits ds = 0" .
    from sender_rounds_drain [OF i Receiving assms(2) q, of client] q(1) show ?thesis
      by (intro exI [of _ "Suc (length ds)"]) (auto simp: Let_def)
  next
    case Signalling
    with assms(2) show ?thesis by (intro exI [of _ 0]) simp
  next
    case Gone
    with i assms(2) show ?thesis by (simp add: event_inv_def)
  qed
  then obtain k where k: "k \<le> length (ibuf (ech s))" "sender ((sender_round client ^^ k) s) = Signalling"
    "exiter ((sender_round client ^^ k) s) = Waiting" "posted ((sender_round client ^^ k) s) = posted s"
    by (auto simp: Let_def)
  from fin [OF k(2,3)] k(1,4) show ?thesis
    using sender_round_step [of client] by (intro exI [of _ "2 + k"]) (simp only: funpow_add o_apply, simp)
qed

text \<open>
  C16: \<open>NotifyExit\<close> does return, whatever the server answers: once it waits, as many rounds of the goroutine as
  there are queued events, and two more, bring it to its end, and each of these rounds is a step of the system or changes
  nothing. No notification is lost in them.
\<close>

theorem exit_event_returns:
  assumes "event_reachable client s" and "exiter s = Waiting"
  shows "\<exists>k \<le> length (ibuf (ech s)) + 2. exiter ((sender_round client ^^ k) s) = ExitDone \<and>
     posted ((sender_round client ^^ k) s) = posted s \<and>
     (\<forall>u. sender_round client u = u \<or> event_step client u (sender_round client u))"
  using assms by (rule exit_returns)


definition ok_client :: "nat \<Rightarrow> string \<Rightarrow> goerr + nat" where
  "ok_client n uri = Inr 200"

definition exit_waiting :: evstate where
  "exit_waiting = (case NotifyApp ''Ready'' (Some event_new) of
     Done (Some s) \<Rightarrow> (case NotifyExit_send s of Done t \<Rightarrow> t | _ \<Rightarrow> s) | _ \<Rightarrow> event_new)"

lemmas exit_waiting_eqs = exit_waiting_def NotifyApp_def NotifyExit_send_def post_def map_res_def inf_send_def event_new_def NewChannel_def

lemma exit_waiting_reachable: "event_reachable ok_client exit_waiting"
proof -
  obtain s where s: "NotifyApp ''Ready'' (Some event_new) = Done (Some s)" "exiter s = NotCalled"
    by (simp add: exit_waiting_eqs)
  moreover obtain t where t: "NotifyExit_send s = Done t"
    using s by (auto simp: exit_waiting_eqs inf_after_def)
  ultimately have "exit_waiting = t" by (simp add: exit_waiting_def)
  moreover have "event_reachable ok_client s"
    by (rule event_next [OF event_start notify_app [OF s(1)]])
  ultimately show ?thesis using event_next notify_exit [OF s(2) t] by blast
qed

lemma rounds_reachable: "event_reachable client s \<Longrightarrow> event_reachable client ((sender_round client ^^ n) s)"
  by (induction n) (auto dest: sender_round_step [THEN disjE] intro: event_next, metis event_next sender_round_step)

theorem exit_event_last_witness:
  "let s = (sender_round ok_client ^^ 4) exit_waiting in
   posted s = [\<lparr>dname = kApp, dmessage = ''Ready''\<rparr>, exit_datum] \<and> NotifyApp ''Ready'' (Some s) = Panics"
proof -
  have d: "exiter ((sender_round ok_client ^^ 4) exit_waiting) = ExitDone" by code_simp
  have "posted ((sender_round ok_client ^^ 4) exit_waiting) = [\<lparr>dname = kApp, dmessage = ''Ready''\<rparr>, exit_datum]" by code_simp
  then show ?thesis
    using exit_event_last [OF rounds_reachable [OF exit_waiting_reachable] d] by (auto simp: Let_def)
qed

theorem exit_event_returns_witness:
  "exiter exit_waiting = Waiting \<and> (\<exists>k. exiter ((sender_round ok_client ^^ k) exit_waiting) = ExitDone)"
proof -
  have w: "exiter exit_waiting = Waiting" by code_simp
  from exit_event_returns [OF exit_waiting_reachable w] w show ?thesis by auto
qed

section \<open>The request\<close>

lemma append_sep_inject:
  assumes "a @ c # x = b @ c # y" and "c \<notin> set a" and "c \<notin> set b"
  shows "a = b \<and> x = y"
  using assms by (induction a arbitrary: b) (auto simp: Cons_eq_append_conv append_eq_Cons_conv)

text \<open>
  The application can read the event from the request: two notifications of the three kinds with the same
  URI are equal, the query unescapes to the message, and whatever the message holds, its escaped form has none of the
  characters that end a parameter, the query or the request line.
\<close>

theorem event_uri_inject:
  assumes "event_uri d = event_uri d'" and "dname d \<in> {kApp, kError, kExit}" and "dname d' \<in> {kApp, kError, kExit}"
  shows "d = d' \<and> url_QueryUnescape (url_QueryEscape (dmessage d)) = Some (dmessage d) \<and>
     set (url_QueryEscape (dmessage d)) \<inter> {CHR ''&'', CHR ''='', CHR ''#'', CHR '' '', CHR 0x0A, CHR 0x0D} = {}"
proof -
  have u: "dname d @ CHR ''&'' # ''message='' @ url_QueryEscape (dmessage d) =
      dname d' @ CHR ''&'' # ''message='' @ url_QueryEscape (dmessage d')"
    using assms(1) by (simp add: event_uri_def)
  have "CHR ''&'' \<notin> set (dname d)" "CHR ''&'' \<notin> set (dname d')"
    using assms(2,3) by (auto simp: kApp_def kError_def kExit_def)
  from append_sep_inject [OF u this] have "dname d = dname d'" "url_QueryEscape (dmessage d) = url_QueryEscape (dmessage d')"
    by simp_all
  then have "d = d'" using url_QueryEscape_inject by (cases d; cases d') auto
  moreover have "set (url_QueryEscape (dmessage d)) \<inter> {CHR ''&'', CHR ''='', CHR ''#'', CHR '' '', CHR 0x0A, CHR 0x0D} = {}"
    by (auto dest!: set_url_QueryEscape simp: is_unreserved_def Let_def)
  ultimately show ?thesis by (simp add: url_QueryUnescape_QueryEscape)
qed

theorem event_uri_inject_witness:
  "event_uri \<lparr>dname = kError, dmessage = ''a&b=c''\<rparr> = ''http://ovm/notify?event=error&message=a%26b%3Dc'' \<and>
   url_QueryUnescape (url_QueryEscape ''a&b=c'') = Some ''a&b=c''"
proof
  show "event_uri \<lparr>dname = kError, dmessage = ''a&b=c''\<rparr> = ''http://ovm/notify?event=error&message=a%26b%3Dc''"
    by code_simp
  show "url_QueryUnescape (url_QueryEscape ''a&b=c'') = Some ''a&b=c''"
    using event_uri_inject [of "\<lparr>dname = kError, dmessage = ''a&b=c''\<rparr>", OF refl] by simp
qed

end
