(* ===== verification/Vm_Lifecycle.thy ===== *)
theory Vm_Lifecycle
  imports Vfkit Powermonitor Event
begin

text \<open>
  The life of the virtual machine (src/pkg/vfkit/vfkit.go, the goroutine of ignition.go and vscok.go): waiting for a state, stopping, the
  goroutine that listens to the states, and \<open>Run\<close>, which configures and starts the machine and registers the goroutines.
  The machine is the parameter \<open>'v vzops\<close>; what it does by itself while the program sleeps is a parameter too.
\<close>

section \<open>Waiting for a state\<close>

text \<open>What the selection of \<open>waitForVMState\<close> yields, one after the other; the result \<open>None\<close> is that it still waits.\<close>

datatype wait_in = NewState vmstate | WaitTimeout

fun waitForVMState :: "vmstate \<Rightarrow> wait_in list \<Rightarrow> goerr option option" where
  "waitForVMState want [] = None"
| "waitForVMState want (NewState s # r) =
     (if s = want then Some None
      else if s = StateError then Some (Some (Msg (''VM state is error, expected state: '' @ state_String want)))
      else waitForVMState want r)"
| "waitForVMState want (WaitTimeout # r) = Some (Some (Msg (''timeout waiting for VM '' @ state_String want)))"

section \<open>Stopping\<close>

type_synonym vlog = "(string \<times> string) list"

text \<open>
  \<open>requestStopVM\<close>, from round \<open>k\<close> on: \<open>expired k\<close> says that the ten seconds are over in round \<open>k\<close>, \<open>tick k\<close> is what the machine
  does in the sleep after it.
\<close>

definition request_round :: "'v vzops \<Rightarrow> 'v \<Rightarrow> vlog \<Rightarrow> 'v \<times> vlog" where
  "request_round ops vm l =
     (if CanRequestStop ops vm
      then let l1 = l @ [(''INFO'', ''requesting VM to stop'')]
           in case vzRequestStop ops vm of
                ((ok, Some e), vm1) \<Rightarrow> (vm1, l1 @ [(''ERROR'', ''requesting VM to stop failed: '' @ err_text e @ ''. Forcing stop'')])
              | ((ok, None), vm1) \<Rightarrow> (vm1, if ok then l1 else l1 @ [(''ERROR'', ''requesting VM to stop: not ok. Forcing stop'')])
      else (vm, l))"

partial_function (option) requestStopVM ::
  "'v vzops \<Rightarrow> (nat \<Rightarrow> 'v \<Rightarrow> 'v) \<Rightarrow> (nat \<Rightarrow> bool) \<Rightarrow> nat \<Rightarrow> bool \<Rightarrow> 'v \<Rightarrow> vlog \<Rightarrow> (goerr option \<times> 'v \<times> vlog) option" where
  "requestStopVM ops tick expired k stopping vm l =
     (if expired k then Some (Some (Msg ''timeout waiting for VM to stop''), vm, l)
      else if vzState ops vm = Stopped then Some (None, vm, l @ [(''INFO'', ''VM is already stopped'')])
      else if vzState ops vm = StateError then Some (None, vm, l @ [(''ERROR'', ''VM is in error state in stopVM'')])
      else if vzState ops vm = Stopping
      then requestStopVM ops tick expired (Suc k) True (tick k vm)
             (if stopping then l else l @ [(''INFO'', ''VM state is stopping, waiting for it to stop'')])
      else (case request_round ops vm l of (vm1, l1) \<Rightarrow> requestStopVM ops tick expired (Suc k) stopping (tick k vm1) l1))"

definition stopVM ::
  "'v vzops \<Rightarrow> (nat \<Rightarrow> 'v \<Rightarrow> 'v) \<Rightarrow> (nat \<Rightarrow> bool) \<Rightarrow> 'v \<Rightarrow> vlog \<Rightarrow> (goerr option \<times> 'v \<times> vlog) option" where
  "stopVM ops tick expired vm l =
     (case requestStopVM ops tick expired 0 False vm l of
        None \<Rightarrow> None
      | Some (None, vm1, l1) \<Rightarrow> Some (None, vm1, l1)
      | Some (Some e, vm1, l1) \<Rightarrow>
          (let l2 = l1 @ [(''ERROR'', ''requesting VM to stop failed: '' @ err_text e)]
           in if vzState ops vm1 = Stopped \<or> vzState ops vm1 = StateError
              then Some (None, vm1, l2 @ [(''INFO'', ''VM stopped, state is: '' @ state_String (vzState ops vm1))])
              else let l3 = l2 @ [(''INFO'', ''try to force stop VM, current state is: '' @ state_String (vzState ops vm1))]
                   in case vzStop ops vm1 of
                        (Some e2, vm2) \<Rightarrow> Some (Some e2, vm2, l3 @ [(''ERROR'', ''force stop VM failed: '' @ err_text e2)])
                      | (None, vm2) \<Rightarrow> Some (None, vm2, l3 @ [(''INFO'', ''force stop VM succeeded'')])))"

section \<open>The states of the machine\<close>

text \<open>
  The goroutine of \<open>Run\<close> that receives the states, and those who wait for them: first \<open>Run\<close> itself, for Running, then a goroutine,
  for Stopped. \<open>failed\<close> says that \<open>Run\<close> returned an error while or before it waited. \<open>emitted\<close> are the states the machine went
  through, \<open>seen\<close> those that were received by a waiting goroutine.
\<close>

datatype listener_pc = LRecv | LSend vmstate | LDone
datatype waiter_pc = WaitFor vmstate | WaiterGone

record life =
  notify :: "vmstate inf"
  vmState :: "vmstate gochan"
  listener :: listener_pc
  waiter :: waiter_pc
  failed :: bool
  lchan :: channels
  emitted :: "vmstate list"
  seen :: "vmstate list"

definition life_init :: life where
  "life_init = \<lparr>notify = NewChannel, vmState = chan_make 1, listener = LRecv, waiter = WaitFor Running, failed = False,
     lchan = channel_init, emitted = [], seen = []\<rparr>"

text \<open>What the listener does after it has passed on a state.\<close>

definition listener_next :: "vmstate \<Rightarrow> life \<Rightarrow> life chan_res" where
  "listener_next st x =
     (if st = Stopped \<or> st = StateError then Done (x\<lparr>listener := LDone\<rparr>)
      else if st = Resuming then map_res (\<lambda>c. x\<lparr>lchan := c, listener := LRecv\<rparr>) (NotifySyncTime (lchan x))
      else Done (x\<lparr>listener := LRecv\<rparr>))"

text \<open>What a waiting goroutine does with a state.\<close>

definition waiter_next :: "vmstate \<Rightarrow> vmstate \<Rightarrow> waiter_pc" where
  "waiter_next want st =
     (case waitForVMState want [NewState st] of
        None \<Rightarrow> WaitFor want
      | Some None \<Rightarrow> if want = Running then WaitFor Stopped else WaiterGone
      | Some (Some e) \<Rightarrow> WaiterGone)"

inductive life_step :: "life \<Rightarrow> life \<Rightarrow> bool" where
  vm_changes: "inf_send st (notify x) = Done c \<Longrightarrow> life_step x (x\<lparr>notify := c, emitted := emitted x @ [st]\<rparr>)"
| listener_receives: "listener x = LRecv \<Longrightarrow> inf_recv (notify x) = Done (Some st, c) \<Longrightarrow> life_step x (x\<lparr>notify := c, listener := LSend st\<rparr>)"
| listener_sends: "listener x = LSend st \<Longrightarrow> chan_send st (vmState x) = Done c \<Longrightarrow> listener_next st (x\<lparr>vmState := c\<rparr>) = Done y \<Longrightarrow> life_step x y"
| waiter_receives: "waiter x = WaitFor w \<Longrightarrow> chan_recv (vmState x) = Done (Some st, c) \<Longrightarrow>
    life_step x (x\<lparr>vmState := c, seen := seen x @ [st], waiter := waiter_next w st\<rparr>)"
| run_fails: "waiter x = WaitFor Running \<Longrightarrow> life_step x (x\<lparr>waiter := WaiterGone, failed := True\<rparr>)"

abbreviation life_reachable :: "life \<Rightarrow> life \<Rightarrow> bool" where
  "life_reachable \<equiv> steps life_step"

lemmas life_start = steps_start [of life_step]
lemmas life_next = steps_next [of life_step]

section \<open>The ports of the guest\<close>

text \<open>
  \<open>ListenFunc\<close> of \<open>listenVsock\<close>, for the address \<open>vsock://:port\<close> the code gives it: \<open>devices\<close> is the number of socket
  devices of the machine, \<open>listen\<close> what listening on a port of it yields.
\<close>

definition vsock_ListenFunc :: "nat \<Rightarrow> (nat \<Rightarrow> goerr option) \<Rightarrow> string \<Rightarrow> string \<Rightarrow> goerr option" where
  "vsock_ListenFunc devices listen scheme port =
     (if scheme = ''vsock''
      then (case strconv_Atoi port of
              Inl e \<Rightarrow> Some e
            | Inr p \<Rightarrow>
                if devices \<noteq> 1
                then Some (Msg (''VM has too many/not enough virtio-vsock devices ('' @ strconv_Itoa (int devices) @ '')''))
                else listen (nat (p mod 2 ^ 32)))
      else Some (Msg (''unexpected scheme '' @ quoted scheme)))"

definition listenVsock :: "nat \<Rightarrow> (nat \<Rightarrow> goerr option) \<Rightarrow> nat \<Rightarrow> string \<Rightarrow> goerr option" where
  "listenVsock devices listen port vsockPath = vsock_ListenFunc devices listen ''vsock'' (strconv_Itoa (int port))"

text \<open>
  \<open>url.Parse\<close> of the address \<open>unix:path\<close> of a route: the fragment and the query are cut off, control characters are refused,
  and the rest is unescaped. A path that does not start with a slash leaves the parsed path empty. An address with two slashes has an authority, which no address of
  the program has (\<open>None\<close>).
\<close>

definition hex_value :: "char \<Rightarrow> nat option" where
  "hex_value c = (case base_digit c of Some d \<Rightarrow> if d < 16 then Some d else None | None \<Rightarrow> None)"

fun path_unescape :: "string \<Rightarrow> string res" where
  "path_unescape [] = Inr []"
| "path_unescape (c # s) =
     (if c \<noteq> CHR ''%'' then (case path_unescape s of Inr t \<Rightarrow> Inr (c # t) | Inl e \<Rightarrow> Inl e)
      else case s of
             a # b # r \<Rightarrow>
               (case (hex_value a, hex_value b) of
                  (Some x, Some y) \<Rightarrow> (case path_unescape r of Inr t \<Rightarrow> Inr (char_of (16 * x + y) # t) | Inl e \<Rightarrow> Inl e)
                | _ \<Rightarrow> Inl (Msg (''invalid URL escape '' @ strconv_Quote (take 3 (c # s)))))
           | _ \<Rightarrow> Inl (Msg (''invalid URL escape '' @ strconv_Quote (take 3 (c # s)))))"

definition is_ctl :: "char \<Rightarrow> bool" where
  "is_ctl c = ((of_char c :: nat) < 32 \<or> c = CHR 0x7F)"

definition cut_at :: "char \<Rightarrow> string \<Rightarrow> string \<times> string" where
  "cut_at c s = (takeWhile (\<lambda>x. x \<noteq> c) s, drop 1 (dropWhile (\<lambda>x. x \<noteq> c) s))"

definition url_unix :: "string \<Rightarrow> (string \<times> string) res option" where
  "url_unix p =
     (let (u, frag) = cut_at (CHR ''#'') p;
          fails = (\<lambda>t e. Some (Inl (Wrap (''parse '' @ strconv_Quote (''unix:'' @ t) @ '': '') e)));
          rest = fst (cut_at (CHR ''?'') u)
      in if list_ex is_ctl u then fails u (Msg ''net/url: invalid control character in URL'')
         else if take 1 rest \<noteq> ''/'' then
           (case path_unescape frag of Inl e \<Rightarrow> fails p e | Inr _ \<Rightarrow> Some (Inr (''unix'', [])))
         else if take 2 rest = ''//'' then None
         else case path_unescape rest of
                Inl e \<Rightarrow> fails u e
              | Inr path \<Rightarrow> (case path_unescape frag of Inl e \<Rightarrow> fails p e | Inr _ \<Rightarrow> Some (Inr (''unix'', path))))"

text \<open>\<open>DialContext\<close> of the route: the error, or that of dialling the socket.\<close>

definition vsock_DialContext :: "(string \<Rightarrow> goerr option) \<Rightarrow> (string \<times> string) res \<Rightarrow> goerr option" where
  "vsock_DialContext dial parsed =
     (case parsed of
        Inl e \<Rightarrow> Some e
      | Inr (scheme, path) \<Rightarrow>
          if scheme = ''unix'' then dial path else Some (Msg (''unexpected scheme '' @ quoted scheme)))"

text \<open>\<open>connectVsocks\<close>: the releases collected, or the error of the first port that fails.\<close>

fun connectVsocks :: "nat \<Rightarrow> (nat \<Rightarrow> goerr option) \<Rightarrow> (nat \<times> string) list \<Rightarrow> nat list \<Rightarrow> vlog \<Rightarrow> nat list res \<times> vlog" where
  "connectVsocks n listen [] rs l = (Inr rs, l)"
| "connectVsocks n listen ((port, url) # devs) rs l =
     (let l1 = l @ [(''INFO'', ''Exposing vsock port '' @ strconv_Itoa (int port) @ '' on '' @ url)]
      in case listenVsock n listen port url of
           Some e \<Rightarrow> (Inl (Wrap (''error exposing vsock port '' @ strconv_Itoa (int port) @ '': '') e), l1)
         | None \<Rightarrow> connectVsocks n listen devs (rs @ [port]) l1)"

section \<open>Ignition\<close>

text \<open>The part of \<open>ignition\<close> before its goroutine: the command, or the error.\<close>

definition ignition :: "errno option \<Rightarrow> string res \<Rightarrow> int \<Rightarrow> share list \<Rightarrow> cctx \<Rightarrow> string res" where
  "ignition listen tzpath now ms opt =
     (case listen of
        Some e \<Rightarrow> Inl (Wrap ''listen ignition socket failed: '' (Errno e))
      | None \<Rightarrow>
          (case ignition_cmd tzpath now ms opt of
             Inl e \<Rightarrow> Inl (Wrap ''generate ignition command failed: '' e)
           | Inr c \<Rightarrow> Inr c))"

text \<open>
  Its goroutine: the results of accepting, of writing the command and of closing; returned are the error, the lines logged, the text sent
  and whether the event was notified.
\<close>

definition ignition_goroutine ::
  "goerr option \<Rightarrow> goerr option \<Rightarrow> goerr option \<Rightarrow> string \<Rightarrow> goerr option \<times> vlog \<times> string option \<times> bool" where
  "ignition_goroutine accept wr cl cmdStr =
     (case accept of
        Some e \<Rightarrow> (Some e, [(''ERROR'', ''ignition accept timeout: '' @ err_text e)], None, False)
      | None \<Rightarrow>
          (let (err, l, sent, note) =
                 (case wr of
                    Some werr \<Rightarrow> (Some werr, [(''ERROR'', ''write ignition command failed: '' @ err_text werr)], None, False)
                  | None \<Rightarrow> (None, [(''INFO'', ''write ignition command success'')], Some cmdStr, True))
           in case cl of
                Some cerr \<Rightarrow> (Some cerr, l @ [(''ERROR'', ''close ignition connection failed: '' @ err_text cerr)], sent, note)
              | None \<Rightarrow> (err, l, sent, note)))"

section \<open>The goroutines at the end of Run\<close>

text \<open>Each returns its error and the lines it logs; \<open>None\<close> is that it has not returned.\<close>

definition vsocks_job :: "nat \<Rightarrow> (nat \<Rightarrow> goerr option) \<Rightarrow> vm_config \<Rightarrow> goerr option \<times> nat list \<times> vlog" where
  "vsocks_job n listen vmC =
     (case connectVsocks n listen (VirtioVsockDevices vmC) [] [] of
        (Inl e, l) \<Rightarrow> (Some e, [], l @ [(''ERROR'', ''connecting vsocks failed: '' @ err_text e)])
      | (Inr rs, l) \<Rightarrow>
          (None, rs, l @ [(''INFO'', ''vsocks are connected''), (''INFO'', ''cancel listen vsocks, because context done'')]))"

text \<open>The timeout of this wait is nil, which never fires: only states of the machine come in.\<close>

definition wait_stopped_job :: "vmstate list \<Rightarrow> (goerr \<times> vlog) option" where
  "wait_stopped_job states =
     (case waitForVMState Stopped (map NewState states) of
        None \<Rightarrow> None
      | Some (Some e) \<Rightarrow> Some (e, [(''ERROR'', ''waiting for VM to stop failed: '' @ err_text e)])
      | Some None \<Rightarrow> (let msg = ''VM is stopped in waitForVMState'' in Some (Msg msg, [(''WARN'', msg)])))"

definition stop_job :: "'v vzops \<Rightarrow> (nat \<Rightarrow> 'v \<Rightarrow> 'v) \<Rightarrow> (nat \<Rightarrow> bool) \<Rightarrow> 'v \<Rightarrow> (goerr option \<times> 'v \<times> vlog) option" where
  "stop_job ops tick expired vm =
     (case stopVM ops tick expired vm [(''INFO'', ''stop VM, because context done'')] of
        None \<Rightarrow> None
      | Some (Some e, vm1, l) \<Rightarrow> Some (None, vm1, l @ [(''ERROR'', ''error stopping VM: '' @ err_text e)])
      | Some (None, vm1, l) \<Rightarrow> Some (None, vm1, l @ [(''INFO'', ''VM is stopped in stopVM'')]))"

section \<open>Run\<close>

text \<open>The goroutines that \<open>Run\<close> registers with the group, itself or through the functions it calls.\<close>

datatype gor =
    RestfulClose | RestfulServe | TimeSyncClose | TimeSyncAccept | TimeSyncEvents | PowerStop | PowerEvents
  | StateListener | IgnitionConn string | Vsocks | WaitStopped | StopOnDone

text \<open>\<open>Restful.Start\<close>: one goroutine closes the listener when the context is done, one serves the requests.\<close>

definition restful_Start :: "gor list \<Rightarrow> gor list" where
  "restful_Start gs = gs @ [RestfulClose, RestfulServe]"

datatype gv_select = CtxDone | GvTimeout | GvReady

text \<open>What the calls of \<open>Run\<close> outside the modelled code yield.\<close>

record run_env =
  e_arch :: goarch
  e_toVz :: "vm_config \<Rightarrow> goerr option"
  e_newVM :: "goerr option"
  e_listen_rest :: "errno option"
  e_select :: gv_select
  e_listen_sync :: "errno option"
  e_listen_initrd :: "errno option"
  e_tz :: "string res"
  e_now :: int
  e_running :: "wait_in list"

text \<open>\<open>waiting\<close> says that \<open>Run\<close> has not returned, being in \<open>waitForVMState\<close>.\<close>

record 'v run_out =
  ret :: "goerr option"
  waiting :: bool
  gors :: "gor list"
  ovm :: 'v
  ohost :: loghost
  olog :: vlog
  onotes :: "string list"

definition run_tail :: "run_env \<Rightarrow> share list \<Rightarrow> cctx \<Rightarrow> 'v run_out \<Rightarrow> 'v run_out" where
  "run_tail env ms opt u =
     (let o1 = u\<lparr>onotes := onotes u @ [''IgnitionProgress'']\<rparr>
      in case ignition (e_listen_initrd env) (e_tz env) (e_now env) ms opt of
           Inl e \<Rightarrow> o1\<lparr>ret := Some e, olog := olog o1 @ [(''ERROR'', ''ignition failed: '' @ err_text e)]\<rparr>
         | Inr c \<Rightarrow>
             (let o2 = o1\<lparr>gors := gors o1 @ [IgnitionConn c]\<rparr>
              in case waitForVMState Running (e_running env) of
                   None \<Rightarrow> o2\<lparr>waiting := True\<rparr>
                 | Some (Some e) \<Rightarrow> o2\<lparr>ret := Some e, olog := olog o2 @ [(''ERROR'', ''waiting for VM to start failed: '' @ err_text e)]\<rparr>
                 | Some None \<Rightarrow>
                     o2\<lparr>ret := None, olog := olog o2 @ [(''INFO'', ''virtual machine is running'')],
                        gors := gors o2 @ [Vsocks, WaitStopped, StopOnDone]\<rparr>))"

definition run_start :: "'v vzops \<Rightarrow> run_env \<Rightarrow> share list \<Rightarrow> cctx \<Rightarrow> 'v run_out \<Rightarrow> 'v run_out" where
  "run_start ops env ms opt u =
     (case fst (initTimeSync (e_listen_sync env) channel_init) of
        Some e \<Rightarrow> u\<lparr>ret := Some e, olog := olog u @ [(''ERROR'', ''setup powermonitor failed: '' @ err_text e)]\<rparr>
      | None \<Rightarrow>
          (let o1 = u\<lparr>olog := olog u @ [(''INFO'', ''power monitor started'')],
                 gors := gors u @ [TimeSyncClose, TimeSyncAccept, TimeSyncEvents, PowerStop, PowerEvents, StateListener]\<rparr>
           in case vzStart ops (ovm o1) of
                (Some e, vm) \<Rightarrow> o1\<lparr>ret := Some e, ovm := vm\<rparr>
              | (None, vm) \<Rightarrow> run_tail env ms opt (o1\<lparr>ovm := vm\<rparr>)))"

definition vfkit_Run ::
  "'v vzops \<Rightarrow> run_env \<Rightarrow> (string \<times> string) list \<Rightarrow> share list \<Rightarrow> cctx \<Rightarrow> loghost \<Rightarrow> 'v \<Rightarrow> 'v run_out" where
  "vfkit_Run ops env dirs mounts opt h vm =
     (let ms = extend_all dirs mounts;
          out = (\<lambda>r l h'. \<lparr>ret = r, waiting = False, gors = [], ovm = vm, ohost = h', olog = l, onotes = []\<rparr>)
      in case logger_New (LogPath opt) (Name opt @ ''-vfkit'') h of
           (Inl e, h1) \<Rightarrow> out (Some (Wrap ''create vfkit logger error: '' e)) [] h1
         | (Inr log, h1) \<Rightarrow>
             (case vmConfig (IsAMD64 (e_arch env)) ms opt h1 of
                (Inl e, l, h2) \<Rightarrow> out (Some e) (l @ [(''ERROR'', ''creating virtual machine config failed: '' @ err_text e)]) h2
              | (Inr vmC, l, h2) \<Rightarrow>
                  (case e_toVz env vmC of
                     Some e \<Rightarrow> out (Some e) (l @ [(''ERROR'', ''converting virtual machine config to vz failed: '' @ err_text e)]) h2
                   | None \<Rightarrow>
                       (case e_newVM env of
                          Some e \<Rightarrow> out (Some e) (l @ [(''ERROR'', ''creating vz virtual machine failed: '' @ err_text e)]) h2
                        | None \<Rightarrow>
                            (case e_listen_rest env of
                               Some e \<Rightarrow> out (Some (Errno e)) (l @ [(''ERROR'', ''create server failed: '' @ err_text (Errno e))]) h2
                             | None \<Rightarrow>
                                 (let o1 = (out None l h2)\<lparr>gors := restful_Start []\<rparr>
                                  in case e_select env of
                                       CtxDone \<Rightarrow> o1\<lparr>olog := olog o1 @ [(''INFO'', ''skip start VM, because context done'')]\<rparr>
                                     | GvTimeout \<Rightarrow>
                                         (let msg = ''timeout waiting for gvproxy to start''
                                          in o1\<lparr>ret := Some (Msg msg), olog := olog o1 @ [(''ERROR'', msg)]\<rparr>)
                                     | GvReady \<Rightarrow>
                                         run_start ops env ms opt
                                           (o1\<lparr>olog := olog o1 @ [(''INFO'', ''gvproxy is ready, start VM'')]\<rparr>)))))))"

declare restful_Start_def [simp]

section \<open>The machine gets stopped\<close>

definition stop_result :: "'v vzops \<Rightarrow> (goerr option \<times> 'v \<times> vlog) option \<Rightarrow> bool" where
  "stop_result ops r = (case r of None \<Rightarrow> False | Some (e, vm, l) \<Rightarrow> e = None \<longrightarrow> vzState ops vm \<in> {Stopped, StateError})"

lemma requestStopVM_returns:
  assumes "expired n" and "k \<le> n"
  shows "stop_result ops (requestStopVM ops tick expired k stopping vm l)"
  using assms(2)
proof (induction "n - k" arbitrary: k stopping vm l)
  case 0
  then have "expired k" using assms(1) by simp
  then show ?case by (subst requestStopVM.simps) (simp add: stop_result_def)
next
  case (Suc m)
  then have m: "m = n - Suc k" "Suc k \<le> n" by simp_all
  note ih = Suc.hyps(1) [OF m]
  show ?case
    by (subst requestStopVM.simps) (simp add: ih split: prod.split, simp add: stop_result_def)
qed

text \<open>
  C11: A machine that is to be stopped gets stopped. Once the ten seconds are over at some round, \<open>stopVM\<close> returns, whatever the machine
  does meanwhile; if it returns no error the machine is stopped or in the error state, and it returns an error only when the
  forced stop was tried and failed.
\<close>

theorem stopVM_stops:
  assumes "expired n" and "vz_documented ops"
  shows "\<exists>e vm' l'. stopVM ops tick expired vm l = Some (e, vm', l') \<and>
     (case e of None \<Rightarrow> vzState ops vm' \<in> {Stopped, StateError} | Some err \<Rightarrow> \<exists>vm1. vzStop ops vm1 = (Some err, vm'))"
proof -
  obtain e vm1 l1 where r: "requestStopVM ops tick expired 0 False vm l = Some (e, vm1, l1)" "e = None \<longrightarrow> vzState ops vm1 \<in> {Stopped, StateError}"
    using requestStopVM_returns [where expired = expired and n = n and k = 0 and ops = ops and tick = tick and stopping = False and vm = vm and l = l, OF assms(1)]
    by (auto simp: stop_result_def split: option.splits)
  have s: "vzStop ops v = (None, v') \<Longrightarrow> vzState ops v' = Stopped" for v v' using assms(2) by (auto simp: vz_documented_def)
  show ?thesis
    using r s by (cases e) (auto simp: stopVM_def Let_def split: prod.split option.split)
qed

theorem stopVM_stops_witness:
  "\<exists>v l. stopVM prompt_vz (\<lambda>k v. v) (\<lambda>k. 20 \<le> k) Paused [] = Some (None, v, l) \<and> v \<in> {Stopped, StateError}"
proof -
  have d: "vzState prompt_vz v = v" "vzStop prompt_vz v = (None, Stopped)" for v by (simp_all add: prompt_vz_def)
  show ?thesis
    using stopVM_stops [where expired = "\<lambda>k. 20 \<le> k" and n = 20 and ops = prompt_vz and tick = "\<lambda>k v. v" and vm = Paused and l = "[]"]
      prompt_vz_documented by (auto simp: d split: option.splits)
qed

section \<open>The states arrive in order\<close>

definition in_flight :: "listener_pc \<Rightarrow> vmstate list" where
  "in_flight pc = (case pc of LSend st \<Rightarrow> [st] | _ \<Rightarrow> [])"

definition final :: "vmstate \<Rightarrow> bool" where
  "final st = (st = Stopped \<or> st = StateError)"

text \<open>
  The invariant: a state is seen, in the channel, with the listener or in the queue, in order; the listener has ended exactly if it
  has passed on a final state, which is then the last one it passed on.
\<close>

definition passed :: "life \<Rightarrow> vmstate list" where
  "passed x = seen x @ cbuf (vmState x)"

definition life_inv :: "life \<Rightarrow> bool" where
  "life_inv x =
     (emitted x = passed x @ in_flight (listener x) @ ibuf (notify x) \<and>
      (if listener x = LDone then passed x \<noteq> [] \<and> final (last (passed x)) \<and> list_all (\<lambda>st. \<not> final st) (butlast (passed x))
       else list_all (\<lambda>st. \<not> final st) (passed x)) \<and>
      ccap (vmState x) = 1 \<and> \<not> cclosed (vmState x) \<and> \<not> iclosed (notify x) \<and> \<not> iclosed (syncTime (lchan x)) \<and>
      length (ibuf (syncTime (lchan x))) = count_list (passed x) Resuming \<and>
      (waiter x = WaiterGone \<longrightarrow> failed x \<or> list_ex final (seen x)) \<and> waiter x \<in> {WaitFor Running, WaitFor Stopped, WaiterGone})"

lemma waiter_next_cases:
  "w \<in> {Running, Stopped} \<Longrightarrow> waiter_next w st \<in> {WaitFor Running, WaitFor Stopped, WaiterGone}"
  "waiter_next w st = WaiterGone \<Longrightarrow> w \<in> {Running, Stopped} \<Longrightarrow> final st"
  by (auto simp: waiter_next_def final_def split: if_splits)

lemma listener_next_Done:
  assumes "listener_next st x = Done y"
  shows "\<exists>z. y = x\<lparr>lchan := z, listener := (if final st then LDone else LRecv)\<rparr> \<and> iclosed (syncTime z) = iclosed (syncTime (lchan x)) \<and>
    length (ibuf (syncTime z)) = length (ibuf (syncTime (lchan x))) + (if st = Resuming then 1 else 0)"
proof (cases "st = Resuming")
  case True
  with assms show ?thesis
    by (auto simp: listener_next_def final_def NotifySyncTime_def map_res_def inf_send_def inf_after_def split: if_splits)
next
  case False
  with assms show ?thesis by (intro exI [of _ "lchan x"]) (auto simp: listener_next_def final_def split: if_splits)
qed

lemma listener_next_ready: "\<not> iclosed (syncTime (lchan x)) \<Longrightarrow> \<exists>y. listener_next st x = Done y"
  by (simp add: listener_next_def NotifySyncTime_def map_res_def inf_send_def)

lemma passed_upd [simp]:
  "passed (x\<lparr>notify := a\<rparr>) = passed x" "passed (x\<lparr>listener := b\<rparr>) = passed x" "passed (x\<lparr>waiter := w\<rparr>) = passed x"
  "passed (x\<lparr>failed := f\<rparr>) = passed x" "passed (x\<lparr>lchan := l\<rparr>) = passed x" "passed (x\<lparr>emitted := e\<rparr>) = passed x"
  by (simp_all add: passed_def)

lemma life_inv_init: "life_inv life_init"
  by (simp add: life_inv_def life_init_def passed_def in_flight_def chan_make_def NewChannel_def channel_init_def)

lemma life_inv_step: "life_step x y \<Longrightarrow> life_inv x \<Longrightarrow> life_inv y"
proof (induction rule: life_step.induct)
  case (vm_changes st x c)
  then have "ibuf c = ibuf (notify x) @ [st]" "\<not> iclosed c" by (auto simp: inf_send_def inf_after_def split: if_splits)
  with vm_changes show ?case by (simp add: life_inv_def)
next
  case (listener_receives x st c)
  have "ibuf (notify x) = st # ibuf c" by (rule infinity.recv_queue [OF listener_receives(2)])
  moreover have "iclosed c = iclosed (notify x)" using listener_receives(2) by (auto simp: inf_recv_def inf_after_def split: list.splits if_splits)
  ultimately show ?case using listener_receives by (simp add: life_inv_def in_flight_def)
next
  case (listener_sends x st c y)
  have c: "c = (vmState x)\<lparr>cbuf := cbuf (vmState x) @ [st]\<rparr>" using listener_sends(2) by (auto simp: chan_send_def split: if_splits)
  from listener_next_Done [OF listener_sends(3)] obtain z where
    y: "y = x\<lparr>vmState := c, lchan := z, listener := (if final st then LDone else LRecv)\<rparr>" "iclosed (syncTime z) = iclosed (syncTime (lchan x))"
    "length (ibuf (syncTime z)) = length (ibuf (syncTime (lchan x))) + (if st = Resuming then 1 else 0)" by auto
  have e: "emitted x = (passed x @ [st]) @ ibuf (notify x)" "list_all (\<lambda>st. \<not> final st) (passed x)"
    using listener_sends(1,4) by (simp_all add: life_inv_def in_flight_def)
  have p: "passed y = passed x @ [st]" using y(1) c by (simp add: passed_def)
  have r: "ccap (vmState x) = 1" "\<not> cclosed (vmState x)" "\<not> iclosed (notify x)" "\<not> iclosed (syncTime (lchan x))"
    "length (ibuf (syncTime (lchan x))) = count_list (passed x) Resuming" "waiter x = WaiterGone \<longrightarrow> failed x \<or> list_ex final (seen x)"
    "waiter x \<in> {WaitFor Running, WaitFor Stopped, WaiterGone}" using listener_sends(4) by (simp_all add: life_inv_def)
  show ?case using r y(2,3) e(2) unfolding life_inv_def p by (simp add: y(1) c in_flight_def e(1))
next
  case (waiter_receives x w st c)
  have c: "cbuf (vmState x) = st # cbuf c" by (rule buffered.recv_queue [OF waiter_receives(2)])
  have k: "ccap c = ccap (vmState x)" "cclosed c = cclosed (vmState x)"
    using waiter_receives(2) by (auto simp: chan_recv_def split: list.splits if_splits)
  let ?y = "x\<lparr>vmState := c, seen := seen x @ [st], waiter := waiter_next w st\<rparr>"
  have p: "passed ?y = passed x" using c by (simp add: passed_def)
  have w: "w \<in> {Running, Stopped}" using waiter_receives(1,3) by (simp add: life_inv_def)
  show ?case
    using waiter_receives(3) k p waiter_next_cases(1) [OF w, of st] waiter_next_cases(2) [OF _ w, of st] unfolding life_inv_def by auto
next
  case (run_fails x)
  then show ?case by (simp add: life_inv_def)
qed

interpretation living: safe_steps life_step life_inv
  by unfold_locales (rule life_inv_step)

lemma life_inv_reachable: "life_reachable life_init x \<Longrightarrow> life_inv x"
  by (erule living.reached) (rule life_inv_init)

text \<open>The ports are exposed in order up to the first that fails; all five if none does.\<close>

lemma listenVsock_one:
  assumes "port < 2 ^ 32"
  shows "listenVsock (Suc 0) listen port u = listen port"
proof -
  have "strconv_Atoi (strconv_Itoa (int port)) = Inr (int port)" using assms by (intro strconv_Atoi_Itoa) simp_all
  moreover have "nat (int port mod 2 ^ 32) = port" using assms by (simp flip: of_nat_power)
  ultimately show ?thesis unfolding listenVsock_def vsock_ListenFunc_def by (simp only: sum.case) simp
qed

lemma connectVsocks_all:
  "list_all (\<lambda>(p, u). p < 2 ^ 32 \<and> listen p = None) devs \<Longrightarrow>
   fst (connectVsocks (Suc 0) listen devs rs l) = Inr (rs @ map fst devs)"
  by (induction devs arbitrary: rs l) (auto simp: listenVsock_one Let_def)

text \<open>
  C7: As long as \<open>Run\<close> has not failed, the states of the machine are delivered. They are received in the order the machine went through
  them; the listener never waits forever for a receiver: while it wants to pass on a state, either the channel takes it or a
  goroutine is there to receive; each resumption has queued exactly one setting of the clock; and when no one waits for a state any more, the
  listener has ended too.
\<close>

theorem states_delivered:
  assumes "life_reachable life_init x" and "\<not> failed x"
  shows "prefix (seen x) (emitted x) \<and>
    (\<forall>st. listener x = LSend st \<longrightarrow>
       (\<exists>c. chan_send st (vmState x) = Done c \<and> (\<exists>y. listener_next st (x\<lparr>vmState := c\<rparr>) = Done y)) \<or>
       (\<exists>w r. waiter x = WaitFor w \<and> chan_recv (vmState x) = Done r)) \<and>
    length (ibuf (syncTime (lchan x))) = count_list (passed x) Resuming \<and>
    (waiter x = WaiterGone \<longrightarrow> listener x = LDone)"
proof -
  have i: "life_inv x" by (rule life_inv_reachable [OF assms(1)])
  have p: "prefix (seen x) (emitted x)" using i by (simp add: life_inv_def passed_def)
  have d: "listener x = LDone" if "waiter x = WaiterGone"
  proof (rule ccontr)
    assume "listener x \<noteq> LDone"
    then have "list_all (\<lambda>st. \<not> final st) (seen x)" using i by (simp add: life_inv_def passed_def)
    then show False using that i assms(2) by (auto simp: life_inv_def list_all_iff list_ex_iff)
  qed
  have s: "(\<exists>c. chan_send st (vmState x) = Done c \<and> (\<exists>y. listener_next st (x\<lparr>vmState := c\<rparr>) = Done y)) \<or>
       (\<exists>w r. waiter x = WaitFor w \<and> chan_recv (vmState x) = Done r)" if a: "listener x = LSend st" for st
  proof (cases "cbuf (vmState x)")
    case Nil
    then show ?thesis using i listener_next_ready [of "x\<lparr>vmState := (vmState x)\<lparr>cbuf := [st]\<rparr>\<rparr>" st]
      by (auto simp: life_inv_def chan_send_def)
  next
    case (Cons v vs)
    moreover obtain w where "waiter x = WaitFor w" using d a by (cases "waiter x") force+
    ultimately show ?thesis by (auto simp: chan_recv_def)
  qed
  show ?thesis using p d s i by (simp add: life_inv_def)
qed

text \<open>A run in which the machine is started and one in which \<open>Run\<close> fails meanwhile.\<close>

definition started :: life where
  "started = life_init\<lparr>notify := inf_after (NewChannel\<lparr>ibuf := [Starting, Running]\<rparr>), emitted := [Starting, Running]\<rparr>"

lemma started_reachable: "life_reachable life_init started"
proof -
  let ?c = "inf_after (NewChannel\<lparr>ibuf := [Starting]\<rparr>)"
  have "life_step life_init (life_init\<lparr>notify := ?c, emitted := [Starting]\<rparr>)"
    using vm_changes [of Starting life_init ?c] by (simp add: life_init_def inf_send_def NewChannel_def)
  moreover have "life_step (life_init\<lparr>notify := ?c, emitted := [Starting]\<rparr>) started"
    using vm_changes [of Running "life_init\<lparr>notify := ?c, emitted := [Starting]\<rparr>" "inf_after (NewChannel\<lparr>ibuf := [Starting, Running]\<rparr>)"]
    by (simp add: started_def life_init_def inf_send_def inf_after_def NewChannel_def)
  ultimately show ?thesis using life_start life_next by blast
qed

theorem states_delivered_witness:
  "prefix (seen started) (emitted started) \<and> emitted started = [Starting, Running]"
  using states_delivered [OF started_reachable] by (simp add: started_def life_init_def)

section \<open>A failure of Run after the start\<close>

definition stuck :: "life \<Rightarrow> bool" where
  "stuck x = (waiter x = WaiterGone \<and> (\<exists>st. listener x = LSend st) \<and> length (cbuf (vmState x)) = ccap (vmState x) \<and> \<not> cclosed (vmState x))"

lemma stuck_step: "life_step x y \<Longrightarrow> stuck x \<Longrightarrow> stuck y"
  by (induction rule: life_step.induct) (auto simp: stuck_def chan_send_def split: if_splits)

interpretation hanging: safe_steps life_step stuck
  by unfold_locales (rule stuck_step)

definition stuck_life :: life where
  "stuck_life = life_init\<lparr>notify := inf_after NewChannel, emitted := [Starting, Running], vmState := (chan_make 1)\<lparr>cbuf := [Starting]\<rparr>,
     listener := LSend Running, waiter := WaiterGone, failed := True\<rparr>"

lemma stuck_life_reachable: "life_reachable started stuck_life"
proof -
  let ?n = "inf_after (NewChannel\<lparr>ibuf := [Running]\<rparr>)" and ?v = "(chan_make 1)\<lparr>cbuf := [Starting]\<rparr>"
  let ?a = "started\<lparr>notify := ?n, listener := LSend Starting\<rparr>"
  let ?b = "started\<lparr>notify := ?n, vmState := ?v\<rparr>"
  let ?c = "started\<lparr>notify := inf_after NewChannel, vmState := ?v, listener := LSend Running\<rparr>"
  have 1: "life_step started ?a"
    by (rule listener_receives) (simp_all add: started_def life_init_def inf_recv_def inf_after_def NewChannel_def)
  have 2: "life_step ?a ?b"
    by (rule listener_sends [where st = Starting and c = ?v])
      (simp_all add: started_def life_init_def chan_send_def chan_make_def listener_next_def)
  have 3: "life_step ?b ?c"
    using listener_receives [of ?b Running "inf_after NewChannel"] by (simp add: started_def life_init_def inf_recv_def inf_after_def NewChannel_def)
  have 4: "life_step ?c (?c\<lparr>waiter := WaiterGone, failed := True\<rparr>)"
    by (rule run_fails) (simp add: started_def life_init_def)
  have "?c\<lparr>waiter := WaiterGone, failed := True\<rparr> = stuck_life" by (simp add: stuck_life_def started_def)
  with life_next [OF life_next [OF life_next [OF life_next [OF life_start 1] 2] 3] 4] show ?thesis by simp
qed

text \<open>
  C35: When \<open>Run\<close> fails after the machine was started, for instance because the ignition command could not be made, the program can hang: there
  is a state in which the listener waits for a receiver that will never come, in every continuation, also when the machine
  stops. The group waits for the listener, so the process never ends by itself.
\<close>

theorem failed_run_hangs:
  "\<exists>x. life_reachable life_init x \<and> failed x \<and> (\<forall>y. life_reachable x y \<longrightarrow> listener y \<noteq> LDone)"
proof -
  have "stuck stuck_life" by (simp add: stuck_def stuck_life_def life_init_def chan_make_def)
  then have "listener y \<noteq> LDone" if "life_reachable stuck_life y" for y
    using hanging.reached [OF that] by (auto simp: stuck_def)
  moreover have "life_reachable life_init y" if "life_reachable started y" for y
    using that started_reachable by (rule steps_trans)
  moreover have "failed stuck_life" by (simp add: stuck_life_def)
  ultimately show ?thesis using stuck_life_reachable by blast
qed

theorem failed_run_hangs_witness:
  "\<exists>x. life_reachable life_init x \<and> failed x \<and> listener x \<noteq> LDone"
  using failed_run_hangs life_start by blast

section \<open>What Run leaves behind\<close>

definition run_ok :: "'v vzops \<Rightarrow> 'v \<Rightarrow> 'v run_out \<Rightarrow> bool" where
  "run_ok ops vm u =
     ((if onotes u = [] then ovm u = vm \<or> (\<exists>e. vzStart ops vm = (Some e, ovm u) \<and> ret u = Some e)
       else vzStart ops vm = (None, ovm u) \<and> {StateListener, PowerEvents, TimeSyncEvents} \<subseteq> set (gors u)) \<and>
      (StopOnDone \<in> set (gors u) \<longleftrightarrow> onotes u \<noteq> [] \<and> ret u = None \<and> \<not> waiting u) \<and>
      (waiting u \<longrightarrow> onotes u \<noteq> []) \<and>
      (RestfulServe \<notin> set (gors u) \<longrightarrow> ret u \<noteq> None \<and> ovm u = vm))"

lemma run_tail_ok:
  assumes "vzStart ops vm = (None, ovm u)" and "{StateListener, PowerEvents, TimeSyncEvents, RestfulServe} \<subseteq> set (gors u)"
    and "StopOnDone \<notin> set (gors u)" and "ret u = None" and "\<not> waiting u"
  shows "run_ok ops vm (run_tail env ms opt u)"
  using assms by (auto simp: run_ok_def run_tail_def Let_def split: sum.split option.split)

lemma run_start_ok:
  assumes "ovm u = vm" and "gors u = [RestfulClose, RestfulServe]" and "ret u = None" and "\<not> waiting u" and "onotes u = []"
  shows "run_ok ops vm (run_start ops env ms opt u)"
proof (cases "fst (initTimeSync (e_listen_sync env) channel_init)")
  case (Some e)
  with assms show ?thesis by (simp add: run_ok_def run_start_def)
next
  case None
  let ?u = "u\<lparr>olog := olog u @ [(''INFO'', ''power monitor started'')],
    gors := gors u @ [TimeSyncClose, TimeSyncAccept, TimeSyncEvents, PowerStop, PowerEvents, StateListener]\<rparr>"
  show ?thesis
  proof (cases "vzStart ops vm")
    case (Pair e v)
    show ?thesis
    proof (cases e)
      case e: None
      have "run_ok ops vm (run_tail env ms opt (?u\<lparr>ovm := v\<rparr>))"
        using assms Pair e by (intro run_tail_ok) simp_all
      then show ?thesis using None Pair assms(1) e by (simp add: run_start_def Let_def)
    next
      case (Some x)
      with None Pair assms show ?thesis by (simp add: run_start_def run_ok_def Let_def)
    qed
  qed
qed

lemma run_ok_early: "run_ok ops vm \<lparr>ret = Some e, waiting = False, gors = [], ovm = vm, ohost = h, olog = l, onotes = []\<rparr>"
  by (simp add: run_ok_def)

lemma vfkit_Run_ok: "run_ok ops vm (vfkit_Run ops env dirs mounts opt h vm)"
  unfolding vfkit_Run_def Let_def
  by (auto split: sum.split prod.split option.split gv_select.split intro!: run_ok_early run_start_ok) (simp_all add: run_ok_def)

text \<open>
  C31: What \<open>Run\<close> leaves behind, for every outcome of its calls. If it made no progress beyond the start, the machine is untouched or its start
  failed with the error returned; if it did, the machine was started and the listener of its states, the reaction to the power and the clock are
  registered. The goroutine that stops the machine at the end is registered exactly when \<open>Run\<close> returned without error after the
  start: after an error that follows the start nobody stops the machine.
\<close>

theorem vfkit_Run_registers:
  assumes "u = vfkit_Run ops env dirs mounts opt h vm"
  shows "(onotes u = [] \<longrightarrow> ovm u = vm \<or> (\<exists>e. vzStart ops vm = (Some e, ovm u) \<and> ret u = Some e)) \<and>
    (onotes u \<noteq> [] \<longrightarrow> vzStart ops vm = (None, ovm u) \<and> {StateListener, PowerEvents, TimeSyncEvents} \<subseteq> set (gors u)) \<and>
    (StopOnDone \<in> set (gors u) \<longleftrightarrow> onotes u \<noteq> [] \<and> ret u = None \<and> \<not> waiting u) \<and>
    (RestfulServe \<notin> set (gors u) \<longrightarrow> ret u \<noteq> None \<and> ovm u = vm)"
  using vfkit_Run_ok [of ops vm env dirs mounts opt h] assms by (simp add: run_ok_def split: if_splits)

text \<open>A host where everything works, but the socket of the ignition cannot be listened on.\<close>

definition env_fails :: run_env where
  "env_fails = \<lparr>e_arch = Arm64, e_toVz = (\<lambda>_. None), e_newVM = None, e_listen_rest = None, e_select = GvReady, e_listen_sync = None,
     e_listen_initrd = Some EADDRINUSE, e_tz = Inr ''/x'', e_now = 0, e_running = []\<rparr>"

definition empty_loghost :: loghost where
  "empty_loghost = hostfs.extend (host_with [] []) \<lparr>managed = []\<rparr>"

theorem vfkit_Run_registers_witness:
  "let u = vfkit_Run prompt_vz env_fails [] default_mounts (cli_Init\<lparr>IsCliMode := True, LogPath := ''/l''\<rparr>) empty_loghost Stopped
   in ret u \<noteq> None \<and> ovm u = Running \<and> StopOnDone \<notin> set (gors u)"
proof -
  let ?u = "vfkit_Run prompt_vz env_fails [] default_mounts (cli_Init\<lparr>IsCliMode := True, LogPath := ''/l''\<rparr>) empty_loghost Stopped"
  have n: "onotes ?u = [''IgnitionProgress'']" by code_simp
  have r: "ret ?u = Some (Wrap ''listen ignition socket failed: '' (Errno EADDRINUSE))" by code_simp
  have s: "vzStart prompt_vz Stopped = (None, Running)" by (simp add: prompt_vz_def)
  from vfkit_Run_registers [OF refl, of prompt_vz env_fails "[]" default_mounts "cli_Init\<lparr>IsCliMode := True, LogPath := ''/l''\<rparr>" empty_loghost Stopped]
  show ?thesis unfolding Let_def n r s by simp
qed

section \<open>The guest reaches the sockets of the program\<close>

text \<open>A path that is its own URL path.\<close>

definition url_plain :: "string \<Rightarrow> bool" where
  "url_plain p =
     (take 1 p = ''/'' \<and> take 2 p \<noteq> ''//'' \<and> list_all (\<lambda>c. \<not> is_ctl c \<and> c \<notin> {CHR ''%'', CHR ''?'', CHR ''#''}) p)"

lemma path_unescape_plain: "CHR ''%'' \<notin> set p \<Longrightarrow> path_unescape p = Inr p"
  by (induction p) auto

lemma cut_at_absent: "c \<notin> set p \<Longrightarrow> cut_at c p = (p, [])"
  by (induction p) (auto simp: cut_at_def)

lemma url_unix_plain:
  assumes "url_plain p"
  shows "url_unix p = Some (Inr (''unix'', p))"
proof -
  have "CHR ''#'' \<notin> set p" "CHR ''?'' \<notin> set p" and u: "CHR ''%'' \<notin> set p" and c: "\<not> list_ex is_ctl p"
    using assms by (auto simp: url_plain_def list_all_iff list_ex_iff)
  note cut = this(1,2) [THEN cut_at_absent]
  have "take 1 p = ''/''" "take 2 p \<noteq> ''//''" using assms by (simp_all add: url_plain_def)
  then show ?thesis unfolding url_unix_def cut Let_def prod.case fst_conv path_unescape_plain [OF u] by (simp add: c)
qed

lemma vmConfig_ports:
  assumes "vmConfig a ms opt h = (Inr c, l, h')"
  shows "VirtioVsockDevices c = [(1024, SocketNetworkPath opt), (1025, SocketInitrdVSockPath opt), (1026, SocketReadyPath opt),
    (1027, TimeSyncSocketPath opt), (1028, SSHAuthSocketPath opt)]"
proof -
  have "concat (map (\<lambda>d. case d of Vsock p u _ \<Rightarrow> [(p, u)] | _ \<Rightarrow> []) (toVFKit ms)) = []" by (simp add: toVFKit_def)
  then show ?thesis using assms unfolding vmConfig_def Let_def bootloader_ok
    by (auto simp: fold_AddDevice AddDevice_def VirtioVsockDevices_def split: if_splits sum.splits prod.splits)
qed



text \<open>With such a character the connection goes to another socket: the escape is undone, and what follows the question mark is dropped.\<close>

lemma url_unix_changes:
  "url_unix ''/s/vm%41-ready.sock'' = Some (Inr (''unix'', ''/s/vmA-ready.sock''))" "url_unix ''/s/vm?-ready.sock'' = Some (Inr (''unix'', ''/s/vm''))"
  by code_simp+

end
