(* ===== verification/Gvproxy.thy ===== *)
theory Gvproxy
  imports Cli Channel Logger
begin

text \<open>
  The network of the guest (src/pkg/gvproxy/gvproxy.go): its configuration, the search domains read from the host, and the goroutine that
  forwards the podman socket. The virtual network and the ssh forward are libraries: their answers are parameters.
\<close>

section \<open>The configuration\<close>

definition gatewayIP :: string where "gatewayIP = ''192.168.127.1''"
definition sshHostPort :: string where "sshHostPort = ''192.168.127.2:22''"
definition hostIP :: string where "hostIP = ''192.168.127.254''"

text \<open>A zone: its name and its records, as name and address.\<close>

type_synonym zone = "string \<times> (string \<times> string) list"

record gv_config =
  gvDebug :: bool
  CaptureFile :: string
  MTU :: nat
  Subnet :: string
  GatewayIP :: string
  GatewayMacAddress :: string
  DHCPStaticLeases :: "(string \<times> string) list"
  DNS :: "zone list"
  DNSSearchDomains :: "string list"
  Forwards :: "(string \<times> string) list"
  NAT :: "(string \<times> string) list"
  GatewayVirtualIPs :: "string list"
  VpnKitUUIDMacAddresses :: "(string \<times> string) list"
  Protocol :: string

definition gv_configuration :: "string list \<Rightarrow> cctx \<Rightarrow> gv_config" where
  "gv_configuration domains opt =
     (let records = [(''gateway'', gatewayIP), (''host'', hostIP)]
      in \<lparr>gvDebug = False, CaptureFile = [], MTU = 5000, Subnet = ''192.168.127.0/24'', GatewayIP = gatewayIP, GatewayMacAddress = ''5a:94:ef:e4:0c:dd'',
          DHCPStaticLeases = [(''192.168.127.2'', ''5a:94:ef:e4:0c:ee'')],
          DNS = [(''containers.internal.'', records), (''docker.internal.'', records)],
          DNSSearchDomains = domains,
          Forwards = [(''127.0.0.1:'' @ strconv_Itoa (SSHPort opt), sshHostPort)],
          NAT = [(hostIP, ''127.0.0.1'')], GatewayVirtualIPs = [hostIP],
          VpnKitUUIDMacAddresses = [(''c3d68012-0208-11ea-9fd7-f2189899ab08'', ''5a:94:ef:e4:0c:ee'')], Protocol = ''hyperkit''\<rparr>)"

section \<open>Search domains\<close>

text \<open>
  \<open>bufio.Scanner\<close>: the lines of the text without their newline and a carriage return before it, an empty rest being none; a line
  that does not fit the buffer of 65536 bytes ends the scan with an error.
\<close>

definition drop_cr :: "string \<Rightarrow> string" where
  "drop_cr l = (if l \<noteq> [] \<and> last l = CHR 0x0D then butlast l else l)"

definition scan_lines :: "string \<Rightarrow> string list" where
  "scan_lines t = (let ls = strings_Split t (CHR 0x0A) in if last ls = [] then butlast ls else ls)"

definition search_prefix :: string where "search_prefix = ''search ''"

text \<open>The loop over the lines; \<open>err\<close> is the error of reading the file, after the text was delivered.\<close>

fun search_loop :: "string list \<Rightarrow> goerr option \<Rightarrow> (string \<times> string) list \<Rightarrow> string list \<times> (string \<times> string) list" where
  "search_loop [] err l =
     (case err of
        None \<Rightarrow> ([], l)
      | Some e \<Rightarrow> ([], l @ [(''WARN'', ''scan /etc/resolv.conf file error: '' @ err_text e)]))"
| "search_loop (t # ts) err l =
     (if 65536 \<le> length t
      then ([], l @ [(''WARN'', ''scan /etc/resolv.conf file error: bufio.Scanner: token too long'')])
      else if strings_HasPrefix (drop_cr t) search_prefix
      then let domains = strings_Split (strings_TrimPrefix (drop_cr t) search_prefix) (CHR '' '')
           in (domains, l @ [(''WARN'', ''Using search domains: ['' @ strings_Join domains '' '' @ '']'')])
      else search_loop ts err l)"

text \<open>The file: the error of opening it, or its text and the error that ended the reading.\<close>

definition searchDomains :: "goerr + string \<times> goerr option \<Rightarrow> (string \<times> string) list \<Rightarrow> string list \<times> (string \<times> string) list" where
  "searchDomains f l =
     (case f of
        Inl e \<Rightarrow> ([], l @ [(''WARN'', ''open /etc/resolv.conf file error: '' @ err_text e)])
      | Inr (t, err) \<Rightarrow> search_loop (scan_lines t) err l)"

section \<open>Run\<close>

datatype gv_gor = EndpointClose | EndpointServe | GatewayClose | GatewayServe "string list" | SshForward

record gv_env =
  g_resolv :: "goerr + string \<times> goerr option"
  g_new :: "gv_config \<Rightarrow> goerr option"
  g_transport :: "string \<Rightarrow> goerr option"
  g_listen :: "string \<Rightarrow> goerr option"

record gv_out =
  gret :: "goerr option"
  ggors :: "gv_gor list"
  gchan :: channels
  ghost :: loghost
  glog :: "(string \<times> string) list"
  gnotes :: "string list"

definition services :: "string list" where
  "services = [''/services/forwarder/all'', ''/services/forwarder/expose'', ''/services/forwarder/unexpose'']"

text \<open>\<open>httpServe\<close> registers two goroutines; \<open>Run\<close> may wait or panic in the notification of its readiness.\<close>

definition gvproxy_Run :: "gv_env \<Rightarrow> cctx \<Rightarrow> channels \<Rightarrow> loghost \<Rightarrow> gv_out chan_res" where
  "gvproxy_Run env opt ch h =
     (let out = (\<lambda>r gs c h' l n. \<lparr>gret = r, ggors = gs, gchan = c, ghost = h', glog = l, gnotes = n\<rparr>)
      in case logger_New (LogPath opt) (Name opt @ ''-gvproxy'') h of
           (Inl e, h1) \<Rightarrow> Done (out (Some (Wrap ''create gvproxy logger error: '' e)) [] ch h1 [] [])
         | (Inr log, h1) \<Rightarrow>
             (case searchDomains (g_resolv env) [] of
                (domains, l) \<Rightarrow>
                  (case g_new env (gv_configuration domains opt) of
                     Some e \<Rightarrow> Done (out (Some e) [] ch h1 l [])
                   | None \<Rightarrow>
                       (let l1 = l @ [(''INFO'', ''listening '' @ Endpoint opt)]
                        in case g_transport env (Endpoint opt) of
                             Some e \<Rightarrow> Done (out (Some (Wrap ''cannot listen: '' e)) [] ch h1 l1 [])
                           | None \<Rightarrow>
                               (case g_listen env (gatewayIP @ '':80'') of
                                  Some e \<Rightarrow> Done (out (Some e) [EndpointClose, EndpointServe] ch h1 l1 [])
                                | None \<Rightarrow>
                                    map_res (\<lambda>c. out None [EndpointClose, EndpointServe, GatewayClose, GatewayServe services, SshForward] c h1 l1 [''GVProxyReady''])
                                      (NotifyGVProxyReady ch))))))"

section \<open>The forward\<close>

text \<open>
  The goroutine: \<open>first\<close> is whether the context ended before the machine was ready; \<open>create\<close> the answer of \<open>CreateSSHForward\<close>; each element of the
  list is a round of the loop: whether the context is done, and the error of \<open>AcceptAndTunnel\<close>. The result \<open>None\<close> is that
  the loop still runs. Returned are the error, the host and the lines logged.
\<close>

fun forward_loop :: "(bool \<times> goerr option) list \<Rightarrow> (string \<times> string) list \<Rightarrow> (string \<times> string) list option" where
  "forward_loop [] l = None"
| "forward_loop ((fin, err) # rs) l =
     (if fin then Some l
      else forward_loop rs
        (case err of None \<Rightarrow> l | Some e \<Rightarrow> l @ [(''INFO'', ''Error occurred handling ssh forwarded connection: '' @ strconv_Quote (err_text e))]))"

definition forward_goroutine ::
  "bool \<Rightarrow> goerr option \<Rightarrow> (bool \<times> goerr option) list \<Rightarrow> cctx \<Rightarrow> 'a hostfs_scheme \<Rightarrow>
   (goerr option \<times> 'a hostfs_scheme \<times> (string \<times> string) list) option" where
  "forward_goroutine first create rounds opt h =
     (if first then Some (None, h, [(''INFO'', ''skip create ssh forward, because context done'')])
      else let l = [(''INFO'', ''VM is ready, creating podman socket forward''), (''INFO'', ''ssh private key path: '' @ SSHPrivateKeyPath opt)];
               cleaned = snd (os_RemoveAll (ForwardSocketPath opt) h)
           in case create of
                Some e \<Rightarrow> Some (Some e, cleaned, l)
              | None \<Rightarrow> map_option (\<lambda>l'. (None, cleaned, l')) (forward_loop rounds l))"

section \<open>Properties\<close>

text \<open>The readiness is announced exactly when both servers are registered, and then by both means.\<close>

definition gv_ok :: "gv_out \<Rightarrow> bool" where
  "gv_ok u =
     (if gret u = None
      then ggors u = [EndpointClose, EndpointServe, GatewayClose, GatewayServe services, SshForward] \<and> gnotes u = [''GVProxyReady''] \<and>
        cbuf (gvproxyReady (gchan u)) = [True]
      else SshForward \<notin> set (ggors u) \<and> gnotes u = [] \<and> gchan u = channel_init)"

lemma notify_gv_init: "\<exists>c. NotifyGVProxyReady channel_init = Done c \<and> cbuf (gvproxyReady c) = [True]"
  by (simp add: NotifyGVProxyReady_def channel_init_def chan_make_def chan_send_def map_res_def)

lemma gvproxy_outcome: "case gvproxy_Run env opt channel_init h of Done u \<Rightarrow> gv_ok u | _ \<Rightarrow> False"
proof -
  obtain c where c: "NotifyGVProxyReady channel_init = Done c" "cbuf (gvproxyReady c) = [True]" using notify_gv_init by blast
  show ?thesis
    unfolding gvproxy_Run_def Let_def by (auto simp: gv_ok_def map_res_def c split: sum.split prod.split option.split)
qed

text \<open>The domains are those of the first line that starts with the prefix, provided no earlier line was too long.\<close>

lemma search_loop_first:
  assumes "list_all (\<lambda>t. length t < 65536 \<and> \<not> strings_HasPrefix (drop_cr t) search_prefix) ts"
    and "length t < 65536" and "strings_HasPrefix (drop_cr t) search_prefix"
  shows "fst (search_loop (ts @ t # us) err l) = strings_Split (drop (length search_prefix) (drop_cr t)) (CHR '' '')"
  using assms by (induction ts) (simp_all add: Let_def strings_TrimPrefix_def)

lemma search_loop_none:
  "list_all (\<lambda>t. \<not> strings_HasPrefix (drop_cr t) search_prefix) ts \<Longrightarrow> fst (search_loop ts err l) = []"
  by (induction ts) (auto split: option.split)

lemma forward_loop_ends: "(\<exists>l'. forward_loop rs l = Some l') \<longleftrightarrow> list_ex fst rs"
  by (induction rs arbitrary: l) (auto split: if_splits)

lemma forward_cleans:
  assumes "forward_goroutine False create rounds opt h = Some (e, h', l)" and "ForwardSocketPath opt \<noteq> []" and "refuse h OpRemove (ForwardSocketPath opt) = None"
  shows "names h' (ForwardSocketPath opt) = None \<and> e = create"
  using assms by (auto simp: forward_goroutine_def Let_def os_RemoveAll_def split: option.splits)

end
