(* ===== verification/Ssh_Agent.thy ===== *)
theory Ssh_Agent
  imports Logger
begin

text \<open>
  The choice of the ssh agent that extends the program's own one and the start of the latter
  (src/pkg/sshagentsock/sshagentsock.go). The agent itself is a library; the environment and the command \<open>launchctl\<close> are parameters.
\<close>

definition knownAgentPaths :: "string list" where
  "knownAgentPaths =
     [''.1password/agent.sock'', ''Library/Group Containers/2BUA8C4S2C.com.1password/t/agent.sock'']"

text \<open>The variable, the home directory and the output of the command that asks launchd.\<close>

record agent_env =
  a_sock :: "string option"
  a_home :: "string res"
  a_launchctl :: "string res"

fun find_known :: "string \<Rightarrow> string list \<Rightarrow> 'a hostfs_scheme \<Rightarrow> string option" where
  "find_known home [] h = None"
| "find_known home (p # ps) h =
     (let q = path_Join [home, p] in if is_ok (os_Stat q h) then Some q else find_known home ps h)"

definition ask_launchd :: "agent_env \<Rightarrow> string \<Rightarrow> 'a hostfs_scheme \<Rightarrow> string \<times> bool" where
  "ask_launchd env socketPath h =
     (case a_launchctl env of
        Inl e \<Rightarrow> (socketPath, False)
      | Inr output \<Rightarrow> (let out = strings_TrimSpace output in if is_ok (os_Stat out h) then (out, True) else (socketPath, False)))"

text \<open>Steps 2 and 3, with the alternative found in step 1.\<close>

definition find_rest :: "agent_env \<Rightarrow> string \<Rightarrow> 'a hostfs_scheme \<Rightarrow> string \<times> bool" where
  "find_rest env socketPath h =
     (case a_home env of
        Inl e \<Rightarrow> ask_launchd env socketPath h
      | Inr home \<Rightarrow>
          (case find_known home knownAgentPaths h of
             Some p \<Rightarrow> (p, True)
           | None \<Rightarrow> ask_launchd env socketPath h))"

definition FindExtendedAgent :: "agent_env \<Rightarrow> 'a hostfs_scheme \<Rightarrow> string \<times> bool" where
  "FindExtendedAgent env h =
     (case a_sock env of
        Some p \<Rightarrow> if strings_Contains p ''com.apple.launchd.'' then find_rest env p h else (p, True)
      | None \<Rightarrow> find_rest env [] h)"

text \<open>
  \<open>Start\<close>: \<open>new\<close> and \<open>add\<close> are the answers of making the agent and of adding the identities; the result has the extending
  agent that was set, if any.
\<close>

definition agent_Start ::
  "goerr option \<Rightarrow> goerr option \<Rightarrow> agent_env \<Rightarrow> 'a hostfs_scheme \<Rightarrow> (string option) res \<times> (string \<times> string) list" where
  "agent_Start new add env h =
     (case new of
        Some e \<Rightarrow> (Inl e, [(''ERROR'', ''new ssh agent error: '' @ err_text e)])
      | None \<Rightarrow>
          (case add of
             Some e \<Rightarrow> (Inl e, [(''ERROR'', ''add identities error: '' @ err_text e)])
           | None \<Rightarrow>
               (case FindExtendedAgent env h of
                  (p, True) \<Rightarrow> (Inr (Some p), [(''INFO'', ''found extended agent: '' @ p)])
                | (p, False) \<Rightarrow> (Inr None, []))))"

section \<open>Properties\<close>

lemma find_known_exists: "find_known home ps h = Some q \<Longrightarrow> \<exists>p \<in> set ps. q = path_Join [home, p] \<and> is_ok (os_Stat q h)"
  by (induction ps) (auto simp: Let_def split: if_splits)

lemma find_known_None: "find_known home ps h = None \<longleftrightarrow> (\<forall>p \<in> set ps. \<not> is_ok (os_Stat (path_Join [home, p]) h))"
  by (induction ps) (auto simp: Let_def)

text \<open>An agent that is found exists, unless it is the one the environment names.\<close>

lemma FindExtendedAgent_exists:
  assumes "FindExtendedAgent env h = (p, True)"
  shows "(a_sock env = Some p \<and> \<not> strings_Contains p ''com.apple.launchd.'') \<or> is_ok (os_Stat p h)"
proof -
  have l: "ask_launchd env q h = (p, True) \<Longrightarrow> is_ok (os_Stat p h)" for q
    by (auto simp: ask_launchd_def Let_def split: sum.splits if_splits)
  have "find_rest env q h = (p, True) \<Longrightarrow> is_ok (os_Stat p h)" for q
    using l by (auto simp: find_rest_def split: sum.splits option.splits dest: find_known_exists)
  then show ?thesis using assms by (auto simp: FindExtendedAgent_def split: option.splits if_splits)
qed

text \<open>
  The comment of the function says that the system's agent is used as an alternative when nothing else is found. The
  alternative is returned with false, and \<open>Start\<close> then sets no agent.
\<close>

lemma alternative_unused:
  assumes "a_sock env = Some p" and "strings_Contains p ''com.apple.launchd.''" and "a_home env = Inr home"
    and "\<forall>q \<in> set knownAgentPaths. \<not> is_ok (os_Stat (path_Join [home, q]) h)" and "a_launchctl env = Inl e"
  shows "FindExtendedAgent env h = (p, False) \<and> agent_Start None None env h = (Inr None, [])"
proof -
  have "find_known home knownAgentPaths h = None" using assms(4) by (simp add: find_known_None)
  then have "FindExtendedAgent env h = (p, False)" using assms by (simp add: FindExtendedAgent_def find_rest_def ask_launchd_def)
  then show ?thesis by (simp add: agent_Start_def)
qed

end
