(* ===== verification/Restful.thy ===== *)
theory Restful
  imports Vz Cli
begin

text \<open>
  The HTTP server of the program (src/pkg/ipc/restful/restful.go): the routes with their method guards, the answers, the
  operations on the virtual machine, and the execution of a command in the guest as a stream of server-sent events.
  The ssh connection to the guest is a parameter.
\<close>

section \<open>Requests and answers\<close>

record http_req =
  rmethod :: string
  rpath :: string
  reqbody :: string

record http_resp =
  rstatus :: nat
  rheaders :: "(string \<times> string) list"
  rbody :: string

definition nl :: string where "nl = [CHR 0x0A]"

definition resp_ok :: "string \<Rightarrow> http_resp" where
  "resp_ok b = \<lparr>rstatus = 200, rheaders = [], rbody = b\<rparr>"

text \<open>\<open>http.Error\<close>.\<close>

definition http_Error :: "string \<Rightarrow> nat \<Rightarrow> http_resp" where
  "http_Error msg code =
     \<lparr>rstatus = code, rheaders = [(''Content-Type'', ''text/plain; charset=utf-8''), (''X-Content-Type-Options'', ''nosniff'')],
      rbody = msg @ nl\<rparr>"

text \<open>The state of a \<open>Restful\<close>: the machine, the options and the lines logged, as level and message.\<close>

record 'v restful =
  rvm :: 'v
  ropt :: cctx
  rlog :: "(string \<times> string) list"

definition restful_New :: "'v \<Rightarrow> cctx \<Rightarrow> 'v restful" where
  "restful_New vm opt = \<lparr>rvm = vm, ropt = opt, rlog = []\<rparr>"

definition r_Info :: "string \<Rightarrow> 'v restful \<Rightarrow> 'v restful" where
  "r_Info m s = s\<lparr>rlog := rlog s @ [(''INFO'', m)]\<rparr>"

definition r_Warn :: "string \<Rightarrow> 'v restful \<Rightarrow> 'v restful" where
  "r_Warn m s = s\<lparr>rlog := rlog s @ [(''WARN'', m)]\<rparr>"

section \<open>The operations\<close>

record infoResponse =
  PodmanSocketPath :: string
  info_SSHPort :: int
  SSHUser :: string
  info_SSHPublicKeyPath :: string
  info_SSHPrivateKeyPath :: string
  info_SSHPublicKey :: string
  info_SSHPrivateKey :: string

record stateResponse =
  State :: string
  canStart :: bool
  canRequestStop :: bool
  canStop :: bool
  canPause :: bool
  canResume :: bool

text \<open>Their JSON, by the tags of the fields.\<close>

definition info_json :: "infoResponse \<Rightarrow> json" where
  "info_json i =
     JObj [(''podmanSocketPath'', JStr (PodmanSocketPath i)), (''sshPort'', JNum (strconv_Itoa (info_SSHPort i))),
       (''sshUser'', JStr (SSHUser i)), (''sshPublicKeyPath'', JStr (info_SSHPublicKeyPath i)),
       (''sshPrivateKeyPath'', JStr (info_SSHPrivateKeyPath i)), (''sshPublicKey'', JStr (info_SSHPublicKey i)),
       (''sshPrivateKey'', JStr (info_SSHPrivateKey i))]"

definition state_json :: "stateResponse \<Rightarrow> json" where
  "state_json r =
     JObj [(''state'', JStr (State r)), (''canStart'', JBool (canStart r)), (''canRequestStop'', JBool (canRequestStop r)),
       (''canStop'', JBool (canStop r)), (''canPause'', JBool (canPause r)), (''canResume'', JBool (canResume r))]"

definition restful_info :: "'v restful \<Rightarrow> infoResponse \<times> 'v restful" where
  "restful_info s =
     (let opt = ropt s
      in (\<lparr>PodmanSocketPath = ForwardSocketPath opt, info_SSHPort = SSHPort opt, SSHUser = ''root'',
            info_SSHPublicKeyPath = SSHPublicKeyPath opt, info_SSHPrivateKeyPath = SSHPrivateKeyPath opt,
            info_SSHPublicKey = SSHPublicKey opt, info_SSHPrivateKey = SSHPrivateKey opt\<rparr>, r_Info ''request /info'' s))"

definition restful_state :: "'v vzops \<Rightarrow> 'v restful \<Rightarrow> stateResponse \<times> 'v restful" where
  "restful_state ops s =
     (let vm = rvm s
      in (\<lparr>State = state_String (vzState ops vm), canStart = CanStart ops vm, canRequestStop = CanRequestStop ops vm,
            canStop = CanStop ops vm, canPause = CanPause ops vm, canResume = CanResume ops vm\<rparr>, r_Info ''request /state'' s))"

text \<open>A call of the machine whose error is logged and returned.\<close>

definition vm_call :: "string \<Rightarrow> ('v \<Rightarrow> goerr option \<times> 'v) \<Rightarrow> 'v restful \<Rightarrow> goerr option \<times> 'v restful" where
  "vm_call what oper s =
     (case oper (rvm s) of
        (Some e, vm) \<Rightarrow> (Some e, r_Warn (''request '' @ what @ '' VM failed: '' @ err_text e) (s\<lparr>rvm := vm\<rparr>))
      | (None, vm) \<Rightarrow> (None, s\<lparr>rvm := vm\<rparr>))"

definition restful_pause :: "'v vzops \<Rightarrow> 'v restful \<Rightarrow> goerr option \<times> 'v restful" where
  "restful_pause ops s = vm_call ''pause'' (vzPause ops) (r_Info ''request /pause'' s)"

definition restful_resume :: "'v vzops \<Rightarrow> 'v restful \<Rightarrow> goerr option \<times> 'v restful" where
  "restful_resume ops s = vm_call ''resume'' (vzResume ops) (r_Info ''request /resume'' s)"

definition requestStop :: "'v vzops \<Rightarrow> 'v restful \<Rightarrow> goerr option \<times> 'v restful" where
  "requestStop ops s =
     (let s1 = r_Info ''request /requestStop'' s
      in case vzRequestStop ops (rvm s1) of
           ((ok, Some e), vm) \<Rightarrow> (Some e, r_Warn (''request requestStop VM failed: '' @ err_text e) (s1\<lparr>rvm := vm\<rparr>))
         | ((ok, None), vm) \<Rightarrow>
             if \<not> ok
             then (let e = Msg ''request requestStop VM failed, ok is false''
                   in (Some e, r_Warn (''request requestStop VM failed: '' @ err_text e) (s1\<lparr>rvm := vm\<rparr>)))
             else (None, s1\<lparr>rvm := vm\<rparr>))"

definition restful_stop :: "'v vzops \<Rightarrow> 'v restful \<Rightarrow> goerr option \<times> 'v restful" where
  "restful_stop ops s = vm_call ''stop'' (vzStop ops) (r_Info ''request /stop'' s)"

definition powerSaveMode :: "bool \<Rightarrow> 'v restful \<Rightarrow> 'v restful" where
  "powerSaveMode enable s = (r_Info ''request /powerSaveMode'' s)\<lparr>ropt := (ropt s)\<lparr>PowerSaveMode := enable\<rparr>\<rparr>"

section \<open>The routes\<close>

text \<open>What a request leads to: an answer, a redirection, or the stream of a command's events.\<close>

datatype http_result = Reply http_resp | Moved string | Stream string

text \<open>The bodies of \<open>/power-save-mode\<close> and \<open>/exec\<close>.\<close>

definition put_bool :: "string \<Rightarrow> json \<Rightarrow> bool \<Rightarrow> bool option" where
  "put_bool f j v = (case j of JBool b \<Rightarrow> Some b | _ \<Rightarrow> None)"

definition put_str :: "string \<Rightarrow> json \<Rightarrow> string \<Rightarrow> string option" where
  "put_str f j v = (case j of JStr t \<Rightarrow> Some t | _ \<Rightarrow> None)"

definition powerSaveModeBody :: "string \<Rightarrow> goerr option \<times> bool" where
  "powerSaveModeBody b = decode_struct [''enable''] put_bool (json_decode_first b) False"

definition execBody :: "string \<Rightarrow> goerr option \<times> string" where
  "execBody b = decode_struct [''command''] put_str (json_decode_first b) []"

definition serve_info :: "http_req \<Rightarrow> 'v restful \<Rightarrow> http_result \<times> 'v restful" where
  "serve_info r s =
     (if rmethod r \<noteq> ''GET'' then (Reply (http_Error ''get only'' 400), s)
      else let (i, s1) = restful_info s in (Reply (resp_ok (json_print (info_json i) @ nl)), s1))"

definition serve_state :: "'v vzops \<Rightarrow> http_req \<Rightarrow> 'v restful \<Rightarrow> http_result \<times> 'v restful" where
  "serve_state ops r s =
     (if rmethod r \<noteq> ''GET'' then (Reply (http_Error ''get only'' 400), s)
      else let (i, s1) = restful_state ops s in (Reply (resp_ok (json_print (state_json i) @ nl)), s1))"

text \<open>The four handlers that call the machine have the same form.\<close>

definition serve_op :: "('v restful \<Rightarrow> goerr option \<times> 'v restful) \<Rightarrow> http_req \<Rightarrow> 'v restful \<Rightarrow> http_result \<times> 'v restful" where
  "serve_op oper r s =
     (if rmethod r \<noteq> ''POST'' then (Reply (http_Error ''post only'' 400), s)
      else case oper s of
             (Some e, s1) \<Rightarrow> (Reply (http_Error (err_text e) 500), s1)
           | (None, s1) \<Rightarrow> (Reply (resp_ok []), s1))"

definition serve_powerSaveMode :: "http_req \<Rightarrow> 'v restful \<Rightarrow> http_result \<times> 'v restful" where
  "serve_powerSaveMode r s =
     (if rmethod r \<noteq> ''PUT'' then (Reply (http_Error ''put only'' 400), s)
      else case powerSaveModeBody (reqbody r) of
             (Some e, b) \<Rightarrow>
               (Reply (http_Error ''failed to decode request body'' 400), r_Warn (''Failed to decode request body: '' @ err_text e) s)
           | (None, b) \<Rightarrow> (Reply (resp_ok []), powerSaveMode b s))"

text \<open>The headers of the event stream, and the test that the connection can flush.\<close>

definition sse_headers :: "(string \<times> string) list" where
  "sse_headers = [(''Content-Type'', ''text/event-stream''), (''Cache-Control'', ''no-cache''), (''Connection'', ''keep-alive'')]"

definition serve_exec :: "bool \<Rightarrow> http_req \<Rightarrow> 'v restful \<Rightarrow> http_result \<times> 'v restful" where
  "serve_exec flusher r s =
     (if rmethod r \<noteq> ''POST'' then (Reply (http_Error ''post only'' 400), s)
      else case execBody (reqbody r) of
             (Some e, c) \<Rightarrow>
               (Reply (http_Error ''failed to decode request body'' 400), r_Warn (''Failed to decode request body: '' @ err_text e) s)
           | (None, c) \<Rightarrow>
               if \<not> flusher
               then (Reply ((resp_ok [])\<lparr>rheaders := sse_headers\<rparr>), r_Warn ''Bowser does not support server-sent events'' s)
               else (Stream c, s))"

text \<open>\<open>http.ServeMux\<close> cleans the path first, except for the method CONNECT, and redirects when that changed it.\<close>

definition cleanPath :: "string \<Rightarrow> string" where
  "cleanPath p =
     (if p = [] then ''/''
      else let p1 = (if hd p = CHR ''/'' then p else CHR ''/'' # p);
               np = path_Clean p1
           in if last p1 = CHR ''/'' \<and> np \<noteq> ''/'' then np @ ''/'' else np)"

definition mux :: "'v vzops \<Rightarrow> bool \<Rightarrow> string \<Rightarrow> http_req \<Rightarrow> 'v restful \<Rightarrow> http_result \<times> 'v restful" where
  "mux ops flusher p =
     (if p = ''/info'' then serve_info
      else if p = ''/state'' then serve_state ops
      else if p = ''/pause'' then serve_op (restful_pause ops)
      else if p = ''/resume'' then serve_op (restful_resume ops)
      else if p = ''/request-stop'' then serve_op (requestStop ops)
      else if p = ''/stop'' then serve_op (restful_stop ops)
      else if p = ''/power-save-mode'' then serve_powerSaveMode
      else if p = ''/exec'' then serve_exec flusher
      else (\<lambda>r s. (Reply (http_Error ''404 page not found'' 404), s)))"

definition serve :: "'v vzops \<Rightarrow> bool \<Rightarrow> http_req \<Rightarrow> 'v restful \<Rightarrow> http_result \<times> 'v restful" where
  "serve ops flusher r s =
     (if rmethod r \<noteq> ''CONNECT'' \<and> cleanPath (rpath r) \<noteq> rpath r then (Moved (cleanPath (rpath r)), s)
      else mux ops flusher (rpath r) r s)"

section \<open>What a request can change\<close>

lemmas handler_defs = serve_info_def serve_state_def serve_op_def serve_powerSaveMode_def serve_exec_def restful_info_def
  restful_state_def restful_pause_def restful_resume_def requestStop_def restful_stop_def powerSaveMode_def vm_call_def r_Info_def r_Warn_def

lemma serve_info_keeps: "serve_info r s = (res, s') \<Longrightarrow> rvm s' = rvm s \<and> ropt s' = ropt s"
  by (auto simp: handler_defs Let_def split: if_splits)

lemma serve_state_keeps: "serve_state ops r s = (res, s') \<Longrightarrow> rvm s' = rvm s \<and> ropt s' = ropt s"
  by (auto simp: handler_defs Let_def split: if_splits)

lemma serve_exec_keeps:
  "serve_exec fl r s = (res, s') \<Longrightarrow> rvm s' = rvm s \<and> ropt s' = ropt s \<and> (\<forall>c. res = Stream c \<longrightarrow> rmethod r = ''POST'' \<and> execBody (reqbody r) = (None, c))"
  by (auto simp: handler_defs split: if_splits option.splits prod.splits)

lemma vm_call_keeps: "vm_call w oper s = (e, s') \<Longrightarrow> ropt s' = ropt s \<and> (e, rvm s') = oper (rvm s)"
  by (auto simp: vm_call_def r_Warn_def split: prod.splits option.splits)

lemma restful_ops_keep:
  "restful_pause ops s = (e, s') \<Longrightarrow> ropt s' = ropt s \<and> (e, rvm s') = vzPause ops (rvm s)"
  "restful_resume ops s = (e, s') \<Longrightarrow> ropt s' = ropt s \<and> (e, rvm s') = vzResume ops (rvm s)"
  "restful_stop ops s = (e, s') \<Longrightarrow> ropt s' = ropt s \<and> (e, rvm s') = vzStop ops (rvm s)"
  "requestStop ops s = (e, s') \<Longrightarrow> ropt s' = ropt s \<and> rvm s' = snd (vzRequestStop ops (rvm s)) \<and>
     (e = None \<longleftrightarrow> fst (vzRequestStop ops (rvm s)) = (True, None))"
  by (auto simp: restful_pause_def restful_resume_def restful_stop_def requestStop_def r_Info_def r_Warn_def Let_def
      dest!: vm_call_keeps split: prod.splits option.splits if_splits)

text \<open>One of the four calls of the machine: a wrong method changes nothing, the error of the call is the answer.\<close>

lemma serve_op_cases:
  assumes "serve_op oper r s = (res, s')"
  obtains "rmethod r \<noteq> ''POST''" "res = Reply (http_Error ''post only'' 400)" "s' = s"
  | e where "rmethod r = ''POST''" "oper s = (Some e, s')" "res = Reply (http_Error (err_text e) 500)"
  | "rmethod r = ''POST''" "oper s = (None, s')" "res = Reply (resp_ok [])"
  using assms by (auto simp: serve_op_def split: if_splits prod.splits option.splits)

lemma serve_psm_cases:
  assumes "serve_powerSaveMode r s = (res, s')"
  obtains "rmethod r \<noteq> ''PUT''" "res = Reply (http_Error ''put only'' 400)" "s' = s"
  | e b where "powerSaveModeBody (reqbody r) = (Some e, b)" "res = Reply (http_Error ''failed to decode request body'' 400)" "rvm s' = rvm s" "ropt s' = ropt s"
  | b where "rmethod r = ''PUT''" "powerSaveModeBody (reqbody r) = (None, b)" "res = Reply (resp_ok [])" "s' = powerSaveMode b s"
  using assms by (auto simp: serve_powerSaveMode_def r_Warn_def split: if_splits prod.splits option.splits)

definition machine_paths :: "string set" where
  "machine_paths = {''/pause'', ''/resume'', ''/request-stop'', ''/stop''}"

definition http_status :: "http_result \<Rightarrow> nat" where
  "http_status res = (case res of Reply a \<Rightarrow> rstatus a | Moved _ \<Rightarrow> 301 | Stream _ \<Rightarrow> 200)"

lemma http_status_simps [simp]:
  "http_status (Reply (http_Error m c)) = c" "http_status (Reply (resp_ok b)) = 200" "http_status (Moved p) = 301"
  by (simp_all add: http_status_def http_Error_def resp_ok_def)

lemma mux_machine_op:
  assumes "p \<in> machine_paths"
  shows "\<exists>oper. mux ops fl p r s = serve_op oper r s \<and> (\<forall>e t. oper s = (e, t) \<longrightarrow> ropt t = ropt s)"
proof -
  consider "p = ''/pause''" | "p = ''/resume''" | "p = ''/request-stop''" | "p = ''/stop''"
    using assms by (auto simp: machine_paths_def)
  then show ?thesis
  proof cases
    case 1
    then show ?thesis by (intro exI [of _ "restful_pause ops"]) (auto simp: mux_def dest: restful_ops_keep(1))
  next
    case 2
    then show ?thesis by (intro exI [of _ "restful_resume ops"]) (auto simp: mux_def dest: restful_ops_keep(2))
  next
    case 3
    then show ?thesis by (intro exI [of _ "requestStop ops"]) (auto simp: mux_def dest: restful_ops_keep(4))
  next
    case 4
    then show ?thesis by (intro exI [of _ "restful_stop ops"]) (auto simp: mux_def dest: restful_ops_keep(3))
  qed
qed

lemma mux_machine:
  assumes "p \<in> machine_paths" and "mux ops fl p r s = (res, s')"
  shows "ropt s' = ropt s \<and> (rvm s' \<noteq> rvm s \<longrightarrow> rmethod r = ''POST'') \<and> (http_status res \<in> {301, 400, 404} \<longrightarrow> s' = s) \<and> (\<forall>c. res \<noteq> Stream c)"
proof -
  from mux_machine_op [OF assms(1)] assms(2) obtain oper where
    o: "serve_op oper r s = (res, s')" "\<forall>e t. oper s = (e, t) \<longrightarrow> ropt t = ropt s" by metis
  from o(1) show ?thesis by (rule serve_op_cases) (use o(2) in auto)
qed

lemma mux_other:
  assumes "p \<notin> machine_paths" and "mux ops fl p r s = (res, s')"
  shows "rvm s' = rvm s \<and> ropt s' = (ropt s)\<lparr>PowerSaveMode := PowerSaveMode (ropt s')\<rparr> \<and>
    (PowerSaveMode (ropt s') \<noteq> PowerSaveMode (ropt s) \<longrightarrow>
       rmethod r = ''PUT'' \<and> p = ''/power-save-mode'' \<and> powerSaveModeBody (reqbody r) = (None, PowerSaveMode (ropt s'))) \<and>
    (http_status res \<in> {301, 400, 404} \<longrightarrow> ropt s' = ropt s) \<and>
    (\<forall>c. res = Stream c \<longrightarrow> p = ''/exec'' \<and> rmethod r = ''POST'' \<and> execBody (reqbody r) = (None, c))"
proof (cases "p = ''/power-save-mode''")
  case True
  with assms(2) have "serve_powerSaveMode r s = (res, s')" by (simp add: mux_def)
  then show ?thesis using True by (elim serve_psm_cases) (auto simp: powerSaveMode_def r_Info_def)
next
  case False
  have 1: "serve_info r s \<noteq> (Stream c, s')" and 2: "serve_state ops r s \<noteq> (Stream c, s')" for c
    by (auto simp: serve_info_def serve_state_def Let_def split: if_splits prod.splits)
  from False assms 1 2 show ?thesis
    by (auto simp: machine_paths_def mux_def split: if_splits dest: serve_info_keeps serve_state_keeps serve_exec_keeps)
qed

lemma serve_shares:
  assumes "serve ops fl r s = (res, s')"
  shows "ExtendShareDir (ropt s') = ExtendShareDir (ropt s)"
proof (cases "rmethod r \<noteq> ''CONNECT'' \<and> cleanPath (rpath r) \<noteq> rpath r")
  case True
  with assms show ?thesis by (auto simp: serve_def)
next
  case False
  then have "mux ops fl (rpath r) r s = (res, s')" using assms by (auto simp: serve_def)
  from mux_machine [OF _ this] mux_other [OF _ this] show ?thesis by (cases "rpath r \<in> machine_paths") (simp, metis cctx.surjective cctx.update_convs(10) cctx.select_convs(12))
qed

text \<open>
  C14: What a request can change. The machine is touched only by a POST to one of the four paths that name an operation,
  the power-save mode only by a PUT to its path whose body was decoded, to the value in the body; no other option ever changes. An answer
  with status 400, 404 or 301 has changed neither, and a command is only executed for a POST to /exec whose body holds it.
\<close>

theorem serve_effects:
  assumes "serve ops fl r s = (res, s')"
  shows "(rvm s' \<noteq> rvm s \<longrightarrow> rmethod r = ''POST'' \<and> rpath r \<in> machine_paths) \<and>
    ropt s' = (ropt s)\<lparr>PowerSaveMode := PowerSaveMode (ropt s')\<rparr> \<and>
    (PowerSaveMode (ropt s') \<noteq> PowerSaveMode (ropt s) \<longrightarrow>
       rmethod r = ''PUT'' \<and> rpath r = ''/power-save-mode'' \<and> powerSaveModeBody (reqbody r) = (None, PowerSaveMode (ropt s'))) \<and>
    (http_status res \<in> {301, 400, 404} \<longrightarrow> rvm s' = rvm s \<and> ropt s' = ropt s) \<and>
    (\<forall>c. res = Stream c \<longrightarrow> rpath r = ''/exec'' \<and> rmethod r = ''POST'' \<and> execBody (reqbody r) = (None, c))"
proof (cases "rmethod r \<noteq> ''CONNECT'' \<and> cleanPath (rpath r) \<noteq> rpath r")
  case True
  with assms show ?thesis by (auto simp: serve_def)
next
  case False
  then have m: "mux ops fl (rpath r) r s = (res, s')" using assms by (auto simp: serve_def)
  show ?thesis
  proof (cases "rpath r \<in> machine_paths")
    case True
    from mux_machine [OF True m] True show ?thesis by auto
  next
    case False
    from mux_other [OF False m] show ?thesis by simp
  qed
qed

theorem serve_effects_witness:
  "let (res, s') = serve prompt_vz True \<lparr>rmethod = ''PUT'', rpath = ''/power-save-mode'', reqbody = ''{\"enable\":true}''\<rparr> (restful_New Running cli_Init)
   in rvm s' = Running \<and> PowerSaveMode (ropt s')"
proof -
  let ?r = "\<lparr>rmethod = ''PUT'', rpath = ''/power-save-mode'', reqbody = ''{\"enable\":true}''\<rparr>" and ?s = "restful_New Running cli_Init"
  obtain res s' where e: "serve prompt_vz True ?r ?s = (res, s')" by fastforce
  have "cleanPath ''/power-save-mode'' = ''/power-save-mode''" "powerSaveModeBody ''{\"enable\":true}'' = (None, True)" by code_simp+
  then have "PowerSaveMode (ropt (snd (serve prompt_vz True ?r ?s)))"
    by (simp add: serve_def mux_def serve_powerSaveMode_def powerSaveMode_def)
  with e serve_effects [OF e] show ?thesis by (auto simp: restful_New_def machine_paths_def)
qed

section \<open>The answers\<close>

lemma hd_nat_digits_zero: "hd (nat_digits n) = CHR ''0'' \<Longrightarrow> n = 0"
proof (induction n rule: nat_digits.induct)
  case (1 n)
  show ?case
  proof (cases "n < 10")
    case True
    then show ?thesis using 1(2) of_char_digit_char [OF True] by (subst (asm) nat_digits.simps) auto
  next
    case False
    then have "hd (nat_digits (n div 10)) = CHR ''0''" using 1(2) by (subst (asm) nat_digits.simps) simp
    then show ?thesis using 1(1) False by simp
  qed
qed

lemma plain_json_Itoa: "0 \<le> n \<Longrightarrow> plain_json (JNum (strconv_Itoa n))"
  using nat_digits_all [of "nat n"] hd_nat_digits_zero [of "nat n"] by (auto simp: strconv_Itoa_def digit_char_def nat_digits.simps [of 0])



end
