(* ===== verification/Exec_Stream.thy ===== *)
theory Exec_Stream
  imports Channel Go_Fmt
begin

text \<open>
  The execution of a command in the guest and the stream of server-sent events about it: the handler of /exec, the function
  \<open>exec\<close> and its writers (src/pkg/ipc/restful/restful.go). One goroutine runs \<open>exec\<close> and sends what the command writes to an unbounded
  channel and an error to a channel of capacity one; the handler selects among the channels, the end of the request and a timer.
  The ssh library is the parameter \<open>ssh_env\<close>.
\<close>

section \<open>Events on the wire\<close>

definition encodeSSE :: "string \<Rightarrow> string" where
  "encodeSSE str = strings_ReplaceAll (strings_TrimSpace str) (CHR 0x0A) (CHR 0x0A # ''data: '')"

datatype sse = EvOut string | EvErr string | EvPing | EvDone

fun sse_text :: "sse \<Rightarrow> string" where
  "sse_text (EvOut out) = ''event: out'' @ [CHR 0x0A] @ ''data: '' @ encodeSSE out @ [CHR 0x0A, CHR 0x0A]"
| "sse_text (EvErr err) = ''event: error'' @ [CHR 0x0A] @ ''data: '' @ encodeSSE err @ [CHR 0x0A, CHR 0x0A]"
| "sse_text EvPing = '': ping'' @ [CHR 0x0A, CHR 0x0A]"
| "sse_text EvDone = ''event: done'' @ [CHR 0x0A] @ ''data: done'' @ [CHR 0x0A, CHR 0x0A]"

section \<open>exec\<close>

datatype stdfd = ToStdout | ToStderr

text \<open>What the guest does: the results of dialling and of opening a session, and for a command what it writes, in order, and its error.\<close>

record ssh_env =
  ssh_Dial :: "string \<Rightarrow> goerr option"
  ssh_NewSession :: "goerr option"
  ssh_Run :: "string \<Rightarrow> (stdfd \<times> string) list \<times> goerr option"

text \<open>The sends of the goroutine, in order.\<close>

datatype exec_act = SendOut string | SendErr string | WarnLog string | SendDone | CloseOut | CloseErr

text \<open>
  The writer of stdout sends the bytes to the channel; \<open>sent\<close> are its sends. Its mutex makes a write one step. The writer of stderr keeps the last write
  and passes it on to the writer of stdout, which the two share.
\<close>

record chWriter =
  sent :: "exec_act list"

definition ch2Writer :: chWriter where
  "ch2Writer = \<lparr>sent = []\<rparr>"

definition chWriter_Write :: "string \<Rightarrow> chWriter \<Rightarrow> nat \<times> chWriter" where
  "chWriter_Write p w = (length p, w\<lparr>sent := sent w @ [SendOut p]\<rparr>)"

record stderr_writer =
  out_writer :: chWriter
  last_write :: string

definition recordWriter :: "chWriter \<Rightarrow> stderr_writer" where
  "recordWriter w = \<lparr>out_writer = w, last_write = []\<rparr>"

definition writer_Write :: "string \<Rightarrow> stderr_writer \<Rightarrow> nat \<times> stderr_writer" where
  "writer_Write p w = (case chWriter_Write p (out_writer w) of (n, u) \<Rightarrow> (n, w\<lparr>last_write := p, out_writer := u\<rparr>))"

definition LastRecord :: "stderr_writer \<Rightarrow> string" where
  "LastRecord w = last_write w"

text \<open>A write of the session: to stdout the shared writer, to stderr its own.\<close>

definition session_Write :: "stdfd \<times> string \<Rightarrow> stderr_writer \<Rightarrow> stderr_writer" where
  "session_Write d w = (case fst d of
     ToStdout \<Rightarrow> w\<lparr>out_writer := snd (chWriter_Write (snd d) (out_writer w))\<rparr>
   | ToStderr \<Rightarrow> snd (writer_Write (snd d) w))"

definition exec :: "ssh_env \<Rightarrow> int \<Rightarrow> string \<Rightarrow> exec_act list \<times> goerr option" where
  "exec env port command =
     (case ssh_Dial env (''127.0.0.1:'' @ strconv_Itoa port) of
        Some e \<Rightarrow> ([SendErr (''dial ssh error: '' @ err_text e)], Some (Wrap ''dial ssh error: '' e))
      | None \<Rightarrow>
          (case ssh_NewSession env of
             Some e \<Rightarrow> ([SendErr (''new ssh session error: '' @ err_text e)], Some (Wrap ''new ssh session error: '' e))
           | None \<Rightarrow>
               (case ssh_Run env command of
                  (ws, err) \<Rightarrow>
                    (let stderr = fold session_Write ws (recordWriter ch2Writer)
                     in case err of
                          None \<Rightarrow> (sent (out_writer stderr), None)
                        | Some e \<Rightarrow>
                            (let m = LastRecord stderr @ [CHR 0x0A] @ err_text e
                             in (sent (out_writer stderr) @ [SendErr (fmt_Sprintf0 m)], Some (Wrap ''run ssh command error: '' (Msg m))))))))"

text \<open>The goroutine of the handler.\<close>

definition exec_goroutine :: "ssh_env \<Rightarrow> int \<Rightarrow> string \<Rightarrow> exec_act list" where
  "exec_goroutine env port command =
     (case exec env port command of
        (sends, err) \<Rightarrow>
          sends @ (case err of Some e \<Rightarrow> [WarnLog (''Failed to execute command: '' @ err_text e)] | None \<Rightarrow> []) @
          [SendDone, CloseOut, CloseErr])"

section \<open>The handler's loop\<close>

text \<open>
  \<open>acts\<close> is what the goroutine still has to do, \<open>gone\<close> that the client closed the connection, \<open>looping\<close> that the handler is
  in its loop; \<open>events\<close> are the events written so far.
\<close>

record stream_st =
  acts :: "exec_act list"
  outCh :: "string inf"
  errCh :: "string gochan"
  doneCh :: "unit gochan"
  gone :: bool
  looping :: bool
  events :: "sse list"
  swarn :: "string list"

definition stream_init :: "exec_act list \<Rightarrow> stream_st" where
  "stream_init as = \<lparr>acts = as, outCh = NewChannel, errCh = chan_make 1, doneCh = chan_make 1, gone = False, looping = True,
     events = [], swarn = []\<rparr>"

fun do_act :: "exec_act \<Rightarrow> stream_st \<Rightarrow> stream_st chan_res" where
  "do_act (SendOut t) s = map_res (\<lambda>c. s\<lparr>outCh := c\<rparr>) (inf_send t (outCh s))"
| "do_act (SendErr t) s = map_res (\<lambda>c. s\<lparr>errCh := c\<rparr>) (chan_send t (errCh s))"
| "do_act (WarnLog m) s = Done (s\<lparr>swarn := swarn s @ [m]\<rparr>)"
| "do_act SendDone s = map_res (\<lambda>c. s\<lparr>doneCh := c\<rparr>) (chan_send () (doneCh s))"
| "do_act CloseOut s = Done (s\<lparr>outCh := inf_Close (outCh s)\<rparr>)"
| "do_act CloseErr s = map_res (\<lambda>c. s\<lparr>errCh := c\<rparr>) (chan_close (errCh s))"

text \<open>A receive from a closed channel gives the empty string.\<close>

definition received :: "string option \<Rightarrow> string" where
  "received r = (case r of None \<Rightarrow> [] | Some t \<Rightarrow> t)"

text \<open>Leaving the loop runs the deferred function, which writes the last event unless the client is gone.\<close>

definition leave :: "string \<Rightarrow> stream_st \<Rightarrow> stream_st" where
  "leave m s = s\<lparr>looping := False, swarn := swarn s @ [m], events := events s @ (if gone s then [] else [EvDone])\<rparr>"

inductive stream_step :: "stream_st \<Rightarrow> stream_st \<Rightarrow> bool" where
  goroutine: "acts s = a # as \<Longrightarrow> do_act a s = Done t \<Longrightarrow> stream_step s (t\<lparr>acts := as\<rparr>)"
| select_done: "looping s \<Longrightarrow> chan_recv (doneCh s) = Done (r, c) \<Longrightarrow>
    stream_step s (leave ''Command execution finished'' (s\<lparr>doneCh := c\<rparr>))"
| select_err: "looping s \<Longrightarrow> chan_recv (errCh s) = Done (r, c) \<Longrightarrow>
    stream_step s (s\<lparr>errCh := c, events := events s @ [EvErr (received r)]\<rparr>)"
| select_out: "looping s \<Longrightarrow> inf_recv (outCh s) = Done (r, c) \<Longrightarrow>
    stream_step s (s\<lparr>outCh := c, events := events s @ [EvOut (received r)]\<rparr>)"
| select_gone: "looping s \<Longrightarrow> gone s \<Longrightarrow> stream_step s (leave ''Client closed connection'' s)"
| select_ping: "looping s \<Longrightarrow> stream_step s (s\<lparr>events := events s @ [EvPing]\<rparr>)"
| client_leaves: "stream_step s (s\<lparr>gone := True\<rparr>)"
| out_notices: "stream_step s (s\<lparr>outCh := inf_notice (outCh s)\<rparr>)"

abbreviation stream_reachable :: "exec_act list \<Rightarrow> stream_st \<Rightarrow> bool" where
  "stream_reachable as \<equiv> steps stream_step (stream_init as)"

lemmas stream_start = steps_start [of stream_step "stream_init as"] for as
lemmas stream_next = steps_next [of stream_step "stream_init as"] for as

inductive_cases stream_stepE: "stream_step s t"

section \<open>What the goroutine sends\<close>

fun act_outs :: "exec_act list \<Rightarrow> string list" where
  "act_outs [] = []"
| "act_outs (SendOut t # as) = t # act_outs as"
| "act_outs (_ # as) = act_outs as"

fun act_errs :: "exec_act list \<Rightarrow> string list" where
  "act_errs [] = []"
| "act_errs (SendErr t # as) = t # act_errs as"
| "act_errs (_ # as) = act_errs as"

fun out_texts :: "sse list \<Rightarrow> string list" where
  "out_texts [] = []"
| "out_texts (EvOut t # es) = t # out_texts es"
| "out_texts (_ # es) = out_texts es"

fun err_texts :: "sse list \<Rightarrow> string list" where
  "err_texts [] = []"
| "err_texts (EvErr t # es) = t # err_texts es"
| "err_texts (_ # es) = err_texts es"

lemma act_append [simp]:
  "act_outs (as @ bs) = act_outs as @ act_outs bs" "act_errs (as @ bs) = act_errs as @ act_errs bs"
  by (induction as rule: act_outs.induct) auto

lemma texts_append [simp]:
  "out_texts (es @ fs) = out_texts es @ out_texts fs" "err_texts (es @ fs) = err_texts es @ err_texts fs"
  by (induction es rule: out_texts.induct) auto

lemma act_map_SendOut [simp]: "act_outs (map (SendOut \<circ> snd) ws) = map snd ws" "act_errs (map (SendOut \<circ> snd) ws) = []"
  by (induction ws) simp_all

lemmas writer_defs = session_Write_def chWriter_Write_def writer_Write_def recordWriter_def ch2Writer_def

text \<open>Both writers together send all writes in order, and the writer of stderr knows the last one to it.\<close>

lemma sent_session: "sent (out_writer (fold session_Write ws w)) = sent (out_writer w) @ map (SendOut \<circ> snd) ws"
  by (induction ws arbitrary: w) (auto simp: writer_defs split: stdfd.splits)

lemma sent_session_new [simp]: "sent (out_writer (fold session_Write ws (recordWriter ch2Writer))) = map (SendOut \<circ> snd) ws"
  by (simp add: sent_session) (simp add: writer_defs)

lemma LastRecord_session:
  "LastRecord (fold session_Write ws (recordWriter ch2Writer)) =
     (case filter (\<lambda>d. fst d = ToStderr) ws of [] \<Rightarrow> [] | v # vs \<Rightarrow> snd (last (v # vs)))"
proof (induction ws rule: rev_induct)
  case (snoc d ws)
  then show ?case
    by (cases "fst d") (auto simp: LastRecord_def writer_defs split: list.splits)
qed (simp add: LastRecord_def recordWriter_def)

text \<open>The shapes the rest of the goroutine can have.\<close>

definition is_send :: "exec_act \<Rightarrow> bool" where
  "is_send a = (case a of SendOut _ \<Rightarrow> True | SendErr _ \<Rightarrow> True | WarnLog _ \<Rightarrow> True | _ \<Rightarrow> False)"

definition acts_ok :: "exec_act list \<Rightarrow> bool" where
  "acts_ok as = (as \<in> {[], [CloseErr], [CloseOut, CloseErr]} \<or>
     (\<exists>sends. as = sends @ [SendDone, CloseOut, CloseErr] \<and> list_all is_send sends))"

lemma acts_ok_Cons:
  assumes "acts_ok (a # as)"
  shows "acts_ok as"
    and "is_send a \<Longrightarrow> SendDone \<in> set as \<and> CloseOut \<in> set as \<and> CloseErr \<in> set as"
    and "a = SendDone \<Longrightarrow> as = [CloseOut, CloseErr]" and "a = CloseOut \<Longrightarrow> as = [CloseErr]" and "a = CloseErr \<Longrightarrow> as = []"
  using assms by (auto simp: acts_ok_def Cons_eq_append_conv is_send_def)

lemma exec_goroutine_ok:
  "acts_ok (exec_goroutine env port command)" "length (act_errs (exec_goroutine env port command)) \<le> 1"
proof -
  have w: "list_all is_send (map (SendOut \<circ> snd) ws)" for ws
    by (induction ws) (simp_all add: is_send_def)
  show "acts_ok (exec_goroutine env port command)"
    using w by (auto simp: acts_ok_def exec_goroutine_def exec_def is_send_def Let_def split: option.splits prod.splits)
  show "length (act_errs (exec_goroutine env port command)) \<le> 1"
    by (auto simp: exec_goroutine_def exec_def Let_def split: option.splits prod.splits)
qed

section \<open>The invariant of the stream\<close>

text \<open>
  What came out of a channel, what is in it and what has not been sent is the script, in order; empty events that stand for nothing
  appear only after the channel was closed and drained.
\<close>

definition outs_inv :: "exec_act list \<Rightarrow> stream_st \<Rightarrow> bool" where
  "outs_inv as s = (\<exists>got n. out_texts (events s) = got @ replicate n [] \<and>
     got @ ibuf (outCh s) @ act_outs (acts s) = act_outs as \<and> (0 < n \<longrightarrow> odone (outCh s)))"

definition errs_inv :: "exec_act list \<Rightarrow> stream_st \<Rightarrow> bool" where
  "errs_inv as s = (\<exists>got n. err_texts (events s) = got @ replicate n [] \<and>
     got @ cbuf (errCh s) @ act_errs (acts s) = act_errs as \<and> (0 < n \<longrightarrow> cclosed (errCh s) \<and> cbuf (errCh s) = []))"

definition chans_inv :: "stream_st \<Rightarrow> bool" where
  "chans_inv s = (acts_ok (acts s) \<and> inf_wf (outCh s) \<and> iclosed (outCh s) = (CloseOut \<notin> set (acts s)) \<and>
     cclosed (errCh s) = (CloseErr \<notin> set (acts s)) \<and> ccap (errCh s) = 1 \<and> ccap (doneCh s) = 1 \<and> \<not> cclosed (doneCh s) \<and>
     (SendDone \<in> set (acts s) \<longrightarrow> cbuf (doneCh s) = []))"

definition end_inv :: "stream_st \<Rightarrow> bool" where
  "end_inv s = ((looping s \<longrightarrow> EvDone \<notin> set (events s)) \<and>
     (EvDone \<in> set (events s) \<longrightarrow> SendDone \<notin> set (acts s) \<and> (\<exists>es. events s = es @ [EvDone] \<and> EvDone \<notin> set es)))"

lemma acts_ok_outs: "acts_ok as \<Longrightarrow> CloseOut \<notin> set as \<Longrightarrow> act_outs as = []"
  by (auto simp: acts_ok_def)

lemma odone_sent: "chans_inv s \<Longrightarrow> odone (outCh s) \<Longrightarrow> ibuf (outCh s) = [] \<and> act_outs (acts s) = []"
  using acts_ok_outs by (auto simp: chans_inv_def inf_wf_def)

text \<open>The goroutine never waits and never panics.\<close>

lemma do_act_Done:
  assumes "chans_inv s" and "errs_inv as s" and "length (act_errs as) \<le> 1" and "acts s = a # rest"
  shows "\<exists>t. do_act a s = Done t"
proof -
  note ok = acts_ok_Cons [of a rest]
  have k: "acts_ok (a # rest)" using assms(1,4) by (simp add: chans_inv_def)
  show ?thesis
  proof (cases a)
    case (SendErr t)
    then have "\<not> cclosed (errCh s)" using assms(1,4) ok(2) [OF k] by (simp add: chans_inv_def is_send_def)
    moreover obtain got where "got @ cbuf (errCh s) @ act_errs (acts s) = act_errs as" using assms(2) by (auto simp: errs_inv_def)
    then have "length (got @ cbuf (errCh s) @ act_errs (acts s)) \<le> 1" using assms(3) by simp
    then have "cbuf (errCh s) = []" using assms(4) SendErr by simp
    ultimately show ?thesis using SendErr assms(1) by (simp add: chan_send_def map_res_def chans_inv_def)
  next
    case (SendOut t)
    then have "\<not> iclosed (outCh s)" using assms(1,4) ok(2) [OF k] by (simp add: chans_inv_def is_send_def)
    then show ?thesis using SendOut by (simp add: inf_send_def map_res_def)
  next
    case SendDone
    then show ?thesis using assms(1,4) by (simp add: chans_inv_def chan_send_def map_res_def)
  next
    case CloseErr
    then show ?thesis using assms(1,4) by (simp add: chans_inv_def chan_close_def map_res_def)
  qed simp_all
qed

text \<open>Every step of the system keeps the invariants.\<close>

lemma chans_inv_act:
  assumes "chans_inv s" and "acts s = a # rest" and "do_act a s = Done t"
  shows "chans_inv (t\<lparr>acts := rest\<rparr>)"
proof -
  have k: "acts_ok (a # rest)" using assms(1,2) by (simp add: chans_inv_def)
  note ok = acts_ok_Cons [OF k]
  show ?thesis
  proof (cases a)
    case (SendOut x)
    then show ?thesis using assms ok(1,2) inf_wf_ops(2)
      by (auto simp: chans_inv_def is_send_def map_res_def inf_send_def inf_after_def inf_wf_def split: chan_res.splits if_splits)
  next
    case (SendErr x)
    then show ?thesis using assms ok(1,2)
      by (auto simp: chans_inv_def is_send_def map_res_def chan_send_def split: chan_res.splits if_splits)
  next
    case (WarnLog x)
    then show ?thesis using assms ok(1,2) by (auto simp: chans_inv_def is_send_def)
  next
    case SendDone
    then show ?thesis using assms ok(1,3)
      by (auto simp: chans_inv_def map_res_def chan_send_def split: chan_res.splits if_splits)
  next
    case CloseOut
    then show ?thesis using assms ok(1,4) by (auto simp: chans_inv_def inf_Close_def inf_wf_def)
  next
    case CloseErr
    then show ?thesis using assms ok(1,5)
      by (auto simp: chans_inv_def map_res_def chan_close_def split: chan_res.splits if_splits)
  qed
qed

lemma texts_inv_act:
  assumes "acts s = a # rest" and "do_act a s = Done t"
  shows "chans_inv s \<Longrightarrow> outs_inv as s \<Longrightarrow> outs_inv as (t\<lparr>acts := rest\<rparr>)"
    and "errs_inv as s \<Longrightarrow> errs_inv as (t\<lparr>acts := rest\<rparr>)" and "end_inv s \<Longrightarrow> end_inv (t\<lparr>acts := rest\<rparr>)"
proof -
  assume c: "chans_inv s" and o: "outs_inv as s"
  from o obtain got n where g: "out_texts (events s) = got @ replicate n []" "got @ ibuf (outCh s) @ act_outs (acts s) = act_outs as"
    "0 < n \<longrightarrow> odone (outCh s)" by (auto simp: outs_inv_def)
  have e: "events t = events s" using assms(2) by (cases a) (auto simp: map_res_def split: chan_res.splits)
  have b: "ibuf (outCh t) @ act_outs rest = ibuf (outCh s) @ act_outs (acts s)"
    using assms by (cases a) (auto simp: map_res_def inf_send_def inf_after_def inf_Close_def split: chan_res.splits if_splits)
  have "odone (outCh s) \<Longrightarrow> odone (outCh t)"
    using assms odone_sent [OF c] by (cases a) (auto simp: map_res_def inf_Close_def split: chan_res.splits)
  with g e b show "outs_inv as (t\<lparr>acts := rest\<rparr>)" by (auto simp: outs_inv_def)
next
  assume o: "errs_inv as s"
  then obtain got n where g: "err_texts (events s) = got @ replicate n []" "got @ cbuf (errCh s) @ act_errs (acts s) = act_errs as"
    "0 < n \<longrightarrow> cclosed (errCh s) \<and> cbuf (errCh s) = []" by (auto simp: errs_inv_def)
  have e: "events t = events s" using assms(2) by (cases a) (auto simp: map_res_def split: chan_res.splits)
  have b: "cbuf (errCh t) @ act_errs rest = cbuf (errCh s) @ act_errs (acts s)"
    and "cclosed (errCh s) \<and> cbuf (errCh s) = [] \<Longrightarrow> cclosed (errCh t) \<and> cbuf (errCh t) = []"
    using assms by (cases a; auto simp: map_res_def chan_send_def chan_close_def split: chan_res.splits if_splits)+
  with g e show "errs_inv as (t\<lparr>acts := rest\<rparr>)" by (auto simp: errs_inv_def)
next
  assume "end_inv s"
  moreover have "events t = events s" "looping t = looping s"
    using assms(2) by (cases a; auto simp: map_res_def split: chan_res.splits)+
  ultimately show "end_inv (t\<lparr>acts := rest\<rparr>)" using assms(1) by (auto simp: end_inv_def)
qed

definition stream_inv :: "exec_act list \<Rightarrow> stream_st \<Rightarrow> bool" where
  "stream_inv as s = (chans_inv s \<and> outs_inv as s \<and> errs_inv as s \<and> end_inv s)"

lemma leave_inv:
  assumes "stream_inv as s" and "looping s" and "\<not> gone s \<longrightarrow> SendDone \<notin> set (acts s)"
  shows "stream_inv as (leave m s)"
  using assms by (auto simp: stream_inv_def chans_inv_def outs_inv_def errs_inv_def end_inv_def leave_def)

lemma select_err_inv:
  assumes "stream_inv as s" and "looping s" and "chan_recv (errCh s) = Done (r, c)"
  shows "stream_inv as (s\<lparr>errCh := c, events := events s @ [EvErr (received r)]\<rparr>)"
proof -
  obtain got n where g: "err_texts (events s) = got @ replicate n []" "got @ cbuf (errCh s) @ act_errs (acts s) = act_errs as"
    "0 < n \<longrightarrow> cclosed (errCh s) \<and> cbuf (errCh s) = []" using assms(1) by (auto simp: stream_inv_def errs_inv_def)
  have "errs_inv as (s\<lparr>errCh := c, events := events s @ [EvErr (received r)]\<rparr>)"
  proof (cases "cbuf (errCh s)")
    case Nil
    then have "r = None" "c = errCh s" "cclosed (errCh s)" using assms(3) by (auto simp: chan_recv_def split: if_splits)
    with g Nil show ?thesis
      by (auto simp: errs_inv_def received_def replicate_append_same intro!: exI [of _ got] exI [of _ "Suc n"])
  next
    case (Cons v vs)
    then have "r = Some v" "c = (errCh s)\<lparr>cbuf := vs\<rparr>" "n = 0" using assms(3) g(3) by (auto simp: chan_recv_def)
    with g Cons show ?thesis by (auto simp: errs_inv_def received_def intro!: exI [of _ "got @ [v]"])
  qed
  moreover have "cclosed c = cclosed (errCh s)" "ccap c = ccap (errCh s)"
    using assms(3) by (auto simp: chan_recv_def split: list.splits if_splits)
  ultimately show ?thesis using assms(1,2) by (auto simp: stream_inv_def chans_inv_def outs_inv_def end_inv_def)
qed

lemma select_out_inv:
  assumes "stream_inv as s" and "looping s" and "inf_recv (outCh s) = Done (r, c)"
  shows "stream_inv as (s\<lparr>outCh := c, events := events s @ [EvOut (received r)]\<rparr>)"
proof -
  obtain got n where g: "out_texts (events s) = got @ replicate n []" "got @ ibuf (outCh s) @ act_outs (acts s) = act_outs as"
    "0 < n \<longrightarrow> odone (outCh s)" using assms(1) by (auto simp: stream_inv_def outs_inv_def)
  have ci: "chans_inv s" using assms(1) by (simp add: stream_inv_def)
  have "outs_inv as (s\<lparr>outCh := c, events := events s @ [EvOut (received r)]\<rparr>)"
  proof (cases "ibuf (outCh s)")
    case Nil
    then have "r = None" "c = outCh s" "odone (outCh s)" using assms(3) by (auto simp: inf_recv_def split: if_splits)
    with g Nil show ?thesis
      by (auto simp: outs_inv_def received_def replicate_append_same intro!: exI [of _ got] exI [of _ "Suc n"])
  next
    case (Cons v vs)
    then have "r = Some v" "ibuf c = vs" using assms(3) by (auto simp: inf_recv_def inf_after_def)
    moreover have "n = 0" using g(3) odone_sent [OF ci] Cons by auto
    ultimately show ?thesis using g Cons by (auto simp: outs_inv_def received_def intro!: exI [of _ "got @ [v]"])
  qed
  moreover have "inf_wf c" using assms(3) ci inf_wf_ops(3) by (auto simp: chans_inv_def)
  moreover have "iclosed c = iclosed (outCh s)"
    using assms(3) by (auto simp: inf_recv_def inf_after_def split: list.splits if_splits)
  ultimately show ?thesis using assms(1,2) by (auto simp: stream_inv_def chans_inv_def errs_inv_def end_inv_def)
qed

lemma stream_inv_step: "stream_step s t \<Longrightarrow> stream_inv as s \<Longrightarrow> stream_inv as t"
proof (induction rule: stream_step.induct)
  case (goroutine s a rest t)
  then show ?case unfolding stream_inv_def by (blast intro: chans_inv_act texts_inv_act)
next
  case (select_done s r c)
  then have "SendDone \<notin> set (acts s)" by (auto simp: stream_inv_def chans_inv_def chan_recv_def split: if_splits)
  moreover have "cclosed c = cclosed (doneCh s)" "ccap c = ccap (doneCh s)"
    using select_done(2) by (auto simp: chan_recv_def split: list.splits if_splits)
  ultimately show ?case using select_done
    by (intro leave_inv) (auto simp: stream_inv_def chans_inv_def outs_inv_def errs_inv_def end_inv_def)
next
  case (out_notices s)
  have "inf_wf (outCh s) \<Longrightarrow> odone (outCh s) \<Longrightarrow> odone (inf_notice (outCh s))" "ibuf (inf_notice (outCh s)) = ibuf (outCh s)"
    "iclosed (inf_notice (outCh s)) = iclosed (outCh s)"
    by (auto simp: inf_notice_def inf_after_def inf_wf_def)
  with out_notices inf_wf_ops(5) show ?case by (auto simp: stream_inv_def chans_inv_def outs_inv_def errs_inv_def end_inv_def)
next
  case (select_gone s)
  then show ?case by (intro leave_inv) simp_all
next
  case (select_ping s)
  then show ?case by (auto simp: stream_inv_def chans_inv_def outs_inv_def errs_inv_def end_inv_def)
next
  case (client_leaves s)
  then show ?case by (auto simp: stream_inv_def chans_inv_def outs_inv_def errs_inv_def end_inv_def)
qed (simp_all add: select_err_inv select_out_inv)

lemma stream_inv_init: "acts_ok as \<Longrightarrow> SendDone \<in> set as \<Longrightarrow> stream_inv as (stream_init as)"
  by (auto simp: stream_inv_def chans_inv_def outs_inv_def errs_inv_def end_inv_def stream_init_def NewChannel_def chan_make_def
      inf_wf_def acts_ok_def)

interpretation streaming: safe_steps stream_step "stream_inv as" for as
  by unfold_locales (rule stream_inv_step)

lemma stream_inv_reachable: "stream_reachable as s \<Longrightarrow> acts_ok as \<Longrightarrow> SendDone \<in> set as \<Longrightarrow> stream_inv as s"
  by (erule streaming.reached) (rule stream_inv_init)

lemma SendDone_exec_goroutine [simp]: "SendDone \<in> set (exec_goroutine env port command)"
  by (simp add: exec_goroutine_def split_beta)

lemma exec_goroutine_outs:
  "ssh_Dial env (''127.0.0.1:'' @ strconv_Itoa port) = None \<Longrightarrow> ssh_NewSession env = None \<Longrightarrow>
   act_outs (exec_goroutine env port command) = map snd (fst (ssh_Run env command))"
  by (auto simp: exec_goroutine_def exec_def Let_def split: prod.splits option.splits)

text \<open>The error message of a command: the last write to stderr, then the error of the session.\<close>

lemma exec_goroutine_errs:
  assumes "ssh_Dial env (''127.0.0.1:'' @ strconv_Itoa port) = None" and "ssh_NewSession env = None" and "ssh_Run env command = (ws, Some e)"
  shows "act_errs (exec_goroutine env port command) =
     [fmt_Sprintf0 ((case filter (\<lambda>d. fst d = ToStderr) ws of [] \<Rightarrow> [] | v # vs \<Rightarrow> snd (last (v # vs))) @ CHR 0x0A # err_text e)]"
  using assms by (simp add: exec_goroutine_def exec_def Let_def LastRecord_session)


text \<open>A command that writes one line, and the states of a run.\<close>

definition echo_env :: ssh_env where
  "echo_env = \<lparr>ssh_Dial = (\<lambda>_. None), ssh_NewSession = None, ssh_Run = (\<lambda>c. ([(ToStdout, ''hello'')], None))\<rparr>"

definition echo_done :: stream_st where
  "echo_done = (stream_init [CloseOut, CloseErr])\<lparr>outCh := inf_after (NewChannel\<lparr>ibuf := [''hello'']\<rparr>), doneCh := (chan_make 1)\<lparr>cbuf := [()]\<rparr>\<rparr>"

lemma echo_goroutine: "exec_goroutine echo_env 22 ''echo hello'' = [SendOut ''hello'', SendDone, CloseOut, CloseErr]"
  by (simp add: exec_goroutine_def exec_def echo_env_def writer_defs)

lemma echo_done_reachable: "stream_reachable (exec_goroutine echo_env 22 ''echo hello'') echo_done"
proof -
  let ?as = "exec_goroutine echo_env 22 ''echo hello''"
  let ?s1 = "(stream_init [SendDone, CloseOut, CloseErr])\<lparr>outCh := inf_after (NewChannel\<lparr>ibuf := [''hello'']\<rparr>)\<rparr>"
  let ?t = "(stream_init ?as)\<lparr>outCh := inf_after (NewChannel\<lparr>ibuf := [''hello'']\<rparr>)\<rparr>"
  have "stream_step (stream_init ?as) (?t\<lparr>acts := [SendDone, CloseOut, CloseErr]\<rparr>)"
    by (rule goroutine [where a = "SendOut ''hello''"]) (simp_all add: echo_goroutine stream_init_def map_res_def inf_send_def NewChannel_def)
  then have r1: "stream_reachable ?as ?s1" using stream_next [OF stream_start] by (simp add: stream_init_def)
  have "stream_step ?s1 ((?s1\<lparr>doneCh := (chan_make 1)\<lparr>cbuf := [()]\<rparr>\<rparr>)\<lparr>acts := [CloseOut, CloseErr]\<rparr>)"
    by (rule goroutine [where a = SendDone]) (simp_all add: stream_init_def map_res_def chan_send_def chan_make_def)
  then show ?thesis using stream_next [OF r1] by (simp add: echo_done_def stream_init_def)
qed


text \<open>
  C36: The handler may drop the output of a command. When the command has finished, its output can still be in the channel while
  the channel of the end is ready too; the selection may take the latter, and the client gets the done event without having got the output,
  although it is still connected.
\<close>

theorem exec_stream_loses_output:
  "\<exists>s. stream_reachable (exec_goroutine echo_env 22 ''echo hello'') s \<and> \<not> looping s \<and> \<not> gone s \<and>
     act_outs (exec_goroutine echo_env 22 ''echo hello'') = [''hello''] \<and> events s = [EvDone]"
proof -
  let ?c = "chan_make 1 :: unit gochan"
  have "stream_step echo_done (leave ''Command execution finished'' (echo_done\<lparr>doneCh := ?c\<rparr>))"
    by (rule select_done [where r = "Some ()"]) (simp_all add: echo_done_def stream_init_def chan_recv_def chan_make_def)
  from stream_next [OF echo_done_reachable this] show ?thesis
    by (intro exI conjI, assumption) (simp_all add: echo_goroutine leave_def echo_done_def stream_init_def)
qed

section \<open>Encoding of the data\<close>

text \<open>
  How a client of server-sent events reads an event: the text is split into lines at newlines and carriage returns, and the
  values of the lines of the field \<open>data\<close> are joined by newlines.
\<close>

definition sse_lines :: "string \<Rightarrow> string list" where
  "sse_lines t = concat (map (\<lambda>l. strings_Split l (CHR 0x0D)) (strings_Split t (CHR 0x0A)))"

definition sse_data :: "string \<Rightarrow> string" where
  "sse_data t = strings_Join (map (drop 6) (filter (\<lambda>l. strings_HasPrefix l ''data: '') (sse_lines t))) [CHR 0x0A]"

lemma ReplaceAll_Join:
  "strings_ReplaceAll t c (c # p) = strings_Join (strings_Split t c) (c # p)"
proof (induction t)
  case (Cons a t)
  obtain x xs where x: "strings_Split t c = x # xs" by (cases "strings_Split t c") auto
  have "strings_ReplaceAll (a # t) c (c # p) = (if a = c then c # p else [a]) @ strings_ReplaceAll t c (c # p)"
    by (simp add: strings_ReplaceAll_def)
  then show ?case using Cons x by (simp add: strings_Join_Cons strings_Join_Cons_hd)
qed (simp add: strings_ReplaceAll_def)

lemma Join_prefix:
  "xs \<noteq> [] \<Longrightarrow> p @ strings_Join xs (c # p) = strings_Join (map ((@) p) xs) [c]"
  by (induction xs rule: induct_list012) simp_all

lemma Split_Join_append:
  "ys \<noteq> [] \<Longrightarrow> \<forall>y \<in> set ys. c \<notin> set y \<Longrightarrow> strings_Split (strings_Join ys [c] @ c # r) c = ys @ strings_Split r c"
  by (induction ys rule: induct_list012) (simp_all add: strings_Split_append_sep)

lemma sse_lines_LF:
  "CHR 0x0D \<notin> set t \<Longrightarrow> sse_lines t = strings_Split t (CHR 0x0A)"
proof -
  assume "CHR 0x0D \<notin> set t"
  then have "\<forall>l \<in> set (strings_Split t (CHR 0x0A)). CHR 0x0D \<notin> set l"
  proof (induction t)
    case (Cons a t)
    then show ?case by (cases "strings_Split t (CHR 0x0A)") auto
  qed simp
  then have "map (\<lambda>l. strings_Split l (CHR 0x0D)) (strings_Split t (CHR 0x0A)) = map (\<lambda>l. [l]) (strings_Split t (CHR 0x0A))"
    by (simp add: strings_Split_no_sep)
  then show ?thesis unfolding sse_lines_def by (simp only: concat_map_singleton map_ident)
qed

lemma sse_data_field:
  assumes "CHR 0x0D \<notin> set t" and "CHR 0x0D \<notin> set e" and "CHR 0x0A \<notin> set e" and "\<not> strings_HasPrefix e ''data: ''"
  shows "sse_data (e @ [CHR 0x0A] @ ''data: '' @ encodeSSE t @ [CHR 0x0A, CHR 0x0A]) = strings_TrimSpace t"
proof -
  let ?xs = "strings_Split (strings_TrimSpace t) (CHR 0x0A)"
  let ?ys = "map ((@) ''data: '') ?xs"
  have x: "\<forall>x \<in> set ?xs. CHR 0x0A \<notin> set x" using strings_Split_parts_no_sep by blast
  have enc: "''data: '' @ encodeSSE t = strings_Join ?ys [CHR 0x0A]"
    unfolding encodeSSE_def by (subst ReplaceAll_Join) (rule Join_prefix, simp)
  have "CHR 0x0D \<notin> set (encodeSSE t)"
    using assms(1) set_strings_TrimSpace [of t] by (auto simp: encodeSSE_def strings_ReplaceAll_def split: if_splits)
  then have "sse_lines (e @ [CHR 0x0A] @ ''data: '' @ encodeSSE t @ [CHR 0x0A, CHR 0x0A]) =
      strings_Split (e @ CHR 0x0A # (strings_Join ?ys [CHR 0x0A] @ CHR 0x0A # [CHR 0x0A])) (CHR 0x0A)"
    unfolding enc [symmetric] using assms(2) by (subst sse_lines_LF) simp_all
  also have "\<dots> = e # ?ys @ [[], []]"
    using x by (simp only: strings_Split_append_sep [OF assms(3)] Split_Join_append) (auto simp: Split_Join_append)
  finally have l: "sse_lines (e @ [CHR 0x0A] @ ''data: '' @ encodeSSE t @ [CHR 0x0A, CHR 0x0A]) = e # ?ys @ [[], []]" .
  have "filter (\<lambda>l. strings_HasPrefix l ''data: '') ?ys = ?ys" by (simp add: filter_id_conv strings_HasPrefix_def)
  then have "map (drop 6) (filter (\<lambda>l. strings_HasPrefix l ''data: '') (e # ?ys @ [[], []])) = ?xs"
    using assms(4) by (simp add: strings_HasPrefix_def o_def)
  then show ?thesis unfolding sse_data_def l by (simp only: strings_Join_Split)
qed



end
