(* ===== verification/Pidlock.thy ===== *)
theory Pidlock
  imports Utils
begin

text \<open>
  Package \<open>pidlock\<close> (src/pkg/pidlock/pidlock.go): a lock file that holds the process id of its owner and
  is protected by an advisory lock. The lock belongs to the inode and to the descriptor that took it.
\<close>

record pidctx =
  fh :: "nat option"
  filePath :: string

definition pidlock_New :: "string \<Rightarrow> pidctx" where
  "pidlock_New p = \<lparr>fh = None, filePath = p\<rparr>"

text \<open>\<open>flock(2)\<close> with \<open>LOCK_EX|LOCK_NB\<close> and with \<open>LOCK_UN\<close>.\<close>

definition flock_ex :: "nat \<Rightarrow> 'a hostfs_scheme \<Rightarrow> errno option \<times> 'a hostfs_scheme" where
  "flock_ex fd h =
     (let f = fds h fd
      in case refuse h OpFlock (fd_path f) of
           Some e \<Rightarrow> (Some e, h)
         | None \<Rightarrow>
             (case flocks h (fd_ino f) of
                Some fd' \<Rightarrow> if fd' = fd then (None, h) else (Some EAGAIN, h)
              | None \<Rightarrow> (None, h\<lparr>flocks := (flocks h)(fd_ino f := Some fd)\<rparr>)))"

definition flock_un :: "nat \<Rightarrow> 'a hostfs_scheme \<Rightarrow> 'a hostfs_scheme" where
  "flock_un fd h = h\<lparr>flocks := drop_locks fd (flocks h)\<rparr>"

text \<open>\<open>TryLock\<close>: the file is opened without \<open>O_TRUNC\<close>; a failed call leaves the descriptor open.\<close>

definition TryLock ::
  "int \<Rightarrow> pidctx \<Rightarrow> 'a hostfs_scheme \<Rightarrow> goerr option \<times> pidctx \<times> 'a hostfs_scheme" where
  "TryLock pid l h =
     (case open_create False (filePath l) h of
        (Inl e, h1) \<Rightarrow> (Some (Wrap ''create pid file failed: '' e), l, h1)
      | (Inr i, h1) \<Rightarrow>
          (let (fd, h2) = fd_new (filePath l) i h1
           in case flock_ex fd h2 of
                (Some e, h3) \<Rightarrow> (Some (Wrap ''lock pid file failed: '' (Errno e)), l, h3)
              | (None, h3) \<Rightarrow>
                  (case fd_Write fd (strconv_Itoa pid) h3 of
                     (Some e, h4) \<Rightarrow> (Some (Wrap ''write pid file failed: '' e), l, h4)
                   | (None, h4) \<Rightarrow> (None, l\<lparr>fh := Some fd\<rparr>, h4))))"

definition Unlock :: "pidctx \<Rightarrow> 'a hostfs_scheme \<Rightarrow> 'a hostfs_scheme" where
  "Unlock l h =
     (case fh l of
        None \<Rightarrow> h
      | Some fd \<Rightarrow> snd (os_RemoveAll (filePath l) (snd (fd_Close fd (flock_un fd h)))))"

definition Owner :: "pidctx \<Rightarrow> 'a hostfs_scheme \<Rightarrow> int res" where
  "Owner l h =
     (case os_ReadFile (filePath l) h of
        Inl e \<Rightarrow> Inl e
      | Inr s \<Rightarrow> (case strconv_Atoi s of Inl e \<Rightarrow> Inl e | Inr p \<Rightarrow> Inr p))"

section \<open>Several processes\<close>

text \<open>
  The system calls of \<open>TryLock\<close> and \<open>Unlock\<close> of several processes on one lock file, interleaved. Each
  process is between calls at one of the points below. A failed \<open>TryLock\<close> ends the process, and a process may be killed at any
  point; in both cases the kernel closes its descriptor.
\<close>

datatype lock_pc =
    NotStarted
  | Opened nat
  | Locked nat
  | Owning nat
  | Released nat
  | Closed
  | Ended

record lock_system =
  sys_host :: hostfs
  sys_pc :: "nat \<Rightarrow> lock_pc"

definition lock_sys_init :: "hostfs \<Rightarrow> lock_system" where
  "lock_sys_init h = \<lparr>sys_host = h, sys_pc = (\<lambda>_. NotStarted)\<rparr>"

definition sys_upd :: "lock_system \<Rightarrow> nat \<Rightarrow> lock_pc \<Rightarrow> hostfs \<Rightarrow> lock_system" where
  "sys_upd s i pc h = s\<lparr>sys_host := h, sys_pc := (sys_pc s)(i := pc)\<rparr>"

inductive lock_step :: "string \<Rightarrow> lock_system \<Rightarrow> lock_system \<Rightarrow> bool" for path where
  do_open:
    "sys_pc s i = NotStarted \<Longrightarrow> open_create False path (sys_host s) = (Inr ino, h1) \<Longrightarrow>
     fd_new path ino h1 = (fd, h2) \<Longrightarrow> lock_step path s (sys_upd s i (Opened fd) h2)"
| open_fails:
    "sys_pc s i = NotStarted \<Longrightarrow> open_create False path (sys_host s) = (Inl e, h1) \<Longrightarrow>
     lock_step path s (sys_upd s i Ended h1)"
| do_flock:
    "sys_pc s i = Opened fd \<Longrightarrow> flock_ex fd (sys_host s) = (None, h1) \<Longrightarrow>
     lock_step path s (sys_upd s i (Locked fd) h1)"
| flock_fails:
    "sys_pc s i = Opened fd \<Longrightarrow> flock_ex fd (sys_host s) = (Some e, h1) \<Longrightarrow>
     lock_step path s (sys_upd s i Ended (snd (fd_Close fd h1)))"
| do_write:
    "sys_pc s i = Locked fd \<Longrightarrow> fd_Write fd (strconv_Itoa (int i)) (sys_host s) = (None, h1) \<Longrightarrow>
     lock_step path s (sys_upd s i (Owning fd) h1)"
| write_fails:
    "sys_pc s i = Locked fd \<Longrightarrow> fd_Write fd (strconv_Itoa (int i)) (sys_host s) = (Some e, h1) \<Longrightarrow>
     lock_step path s (sys_upd s i Ended (snd (fd_Close fd h1)))"
| do_unlock:
    "sys_pc s i = Owning fd \<Longrightarrow> lock_step path s (sys_upd s i (Released fd) (flock_un fd (sys_host s)))"
| do_close:
    "sys_pc s i = Released fd \<Longrightarrow>
     lock_step path s (sys_upd s i Closed (snd (fd_Close fd (sys_host s))))"
| do_remove:
    "sys_pc s i = Closed \<Longrightarrow>
     lock_step path s (sys_upd s i Ended (snd (os_RemoveAll path (sys_host s))))"
| killed:
    "sys_pc s i \<in> {Opened fd, Locked fd, Owning fd, Released fd} \<Longrightarrow>
     lock_step path s (sys_upd s i Ended (snd (fd_Close fd (sys_host s))))"

abbreviation lock_reachable :: "string \<Rightarrow> hostfs \<Rightarrow> lock_system \<Rightarrow> bool" where
  "lock_reachable path h0 \<equiv> steps (lock_step path) (lock_sys_init h0)"

lemmas lock_start = steps_start [of "lock_step path" "lock_sys_init h0"] for path h0
lemmas lock_next = steps_next [of "lock_step path" "lock_sys_init h0"] for path h0

definition holds :: "lock_system \<Rightarrow> nat \<Rightarrow> nat \<Rightarrow> bool" where
  "holds s i fd = (sys_pc s i = Locked fd \<or> sys_pc s i = Owning fd)"


section \<open>One process\<close>

lemma fd_new_fields [host_simps]:
  "fd_new p i h = (fd, h') \<Longrightarrow> names h' = names h"
  "fd_new p i h = (fd, h') \<Longrightarrow> files h' = files h"
  "fd_new p i h = (fd, h') \<Longrightarrow> flocks h' = flocks h"
  "fd_new p i h = (fd, h') \<Longrightarrow> refuse h' = refuse h"
  "fd_new p i h = (fd, h') \<Longrightarrow> fd = next_fd h"
  "fd_new p i h = (fd, h') \<Longrightarrow> next_fd h' = Suc (next_fd h)"
  "fd_new p i h = (fd, h') \<Longrightarrow>
     fds h' = (fds h)(fd := \<lparr>fd_path = p, fd_ino = i, fd_off = 0, fd_open = True\<rparr>)"
  by (auto simp: fd_new_def)

lemma flock_ex_ok:
  assumes "flock_ex fd h = (None, h')"
  shows "h' = h\<lparr>flocks := (flocks h)(fd_ino (fds h fd) := Some fd)\<rparr>"
    and "flocks h (fd_ino (fds h fd)) \<in> {None, Some fd}"
  using assms by (auto simp: flock_ex_def Let_def fun_upd_idem split: option.splits if_splits)

lemma flock_ex_busy:
  "refuse h OpFlock (fd_path (fds h fd)) = None \<Longrightarrow> flocks h (fd_ino (fds h fd)) = Some fd' \<Longrightarrow> fd' \<noteq> fd \<Longrightarrow>
     flock_ex fd h = (Some EAGAIN, h)"
  by (simp add: flock_ex_def)

lemma fd_Write_ok:
  assumes "fd_Write fd d h = (None, h')"
  shows "h' = h\<lparr>files := (files h)(fd_ino (fds h fd) := write_at (fd_off (fds h fd)) d (files h (fd_ino (fds h fd)))),
      fds := (fds h)(fd := (fds h fd)\<lparr>fd_off := fd_off (fds h fd) + length d\<rparr>)\<rparr>"
  using assms by (auto simp: fd_Write_def fh_Write_def Let_def split: option.splits if_splits)

text \<open>What a successful \<open>TryLock\<close> did: it wrote the process id over the start of the file.\<close>

lemma TryLock_ok:
  assumes "TryLock pid l h = (None, l', h')"
  obtains i fd where "l' = l\<lparr>fh := Some fd\<rparr>" and "fd = next_fd h"
    and "names h' = (names h)(filePath l := Some (File i))"
    and "names h (filePath l) = None \<or> names h (filePath l) = Some (File i)"
    and "fd_ino (fds h' fd) = i" and "fd_open (fds h' fd)" and "fd_path (fds h' fd) = filePath l"
    and "flocks h' = (flocks h)(i := Some fd)" and "flocks h i \<in> {None, Some fd}"
    and "files h' i = write_at 0 (strconv_Itoa pid)
          (if names h (filePath l) = None then empty_file else files h i)"
    and "\<And>j. j \<noteq> i \<Longrightarrow> files h' j = files h j" and "refuse h' = refuse h"
proof -
  obtain i h1 fd h2 h3 where o: "open_create False (filePath l) h = (Inr i, h1)"
    and n: "fd_new (filePath l) i h1 = (fd, h2)" and k: "flock_ex fd h2 = (None, h3)"
    and w: "fd_Write fd (strconv_Itoa pid) h3 = (None, h')" and l': "l' = l\<lparr>fh := Some fd\<rparr>"
    using assms by (auto simp: TryLock_def Let_def split: sum.splits prod.splits option.splits)
  note oo = open_create_ok [OF o] and nn = fd_new_fields [OF n] and kk = flock_ex_ok [OF k]
  have fd: "fds h2 fd = \<lparr>fd_path = filePath l, fd_ino = i, fd_off = 0, fd_open = True\<rparr>"
    using nn(7) by simp
  have h3: "h3 = h2\<lparr>flocks := (flocks h2)(i := Some fd)\<rparr>" using kk(1) fd by simp
  have h': "h' = h3\<lparr>files := (files h3)(i := write_at 0 (strconv_Itoa pid) (files h3 i)),
      fds := (fds h3)(fd := (fds h2 fd)\<lparr>fd_off := length (strconv_Itoa pid)\<rparr>)\<rparr>"
    using fd_Write_ok [OF w] fd h3 by simp
  have old: "files h1 i = (if names h (filePath l) = None then empty_file else files h i)"
    using oo(4,5) by (cases "names h (filePath l)") auto
  show thesis
  proof (rule that [of fd i])
    show "l' = l\<lparr>fh := Some fd\<rparr>" by (rule l')
    show "fd = next_fd h" using nn(5) oo(14) by simp
    show "flocks h i \<in> {None, Some fd}" using kk(2) fd nn(3) oo(15) by simp
    show "flocks h' = (flocks h)(i := Some fd)" using nn(3) oo(15) by (simp add: h' h3)
    show "files h' j = files h j" if "j \<noteq> i" for j using that nn(2) oo(2) by (simp add: h' h3)
    show "names h' = (names h)(filePath l := Some (File i))" using nn(1) oo(1) by (simp add: h' h3)
    show "names h (filePath l) = None \<or> names h (filePath l) = Some (File i)" by (rule oo(6))
    show "files h' i = write_at 0 (strconv_Itoa pid)
          (if names h (filePath l) = None then empty_file else files h i)"
      using nn(2) old by (simp add: h' h3)
    show "refuse h' = refuse h" using nn(4) oo(7) by (simp add: h' h3)
  qed (simp_all add: h' fd)
qed

lemma TryLock_keeps:
  assumes "TryLock pid l h = (None, l', h')"
  shows "filePath l' = filePath l" and "refuse h' = refuse h"
  using assms by (elim TryLock_ok; simp)+

lemma TryLock_content:
  assumes "TryLock pid l h = (None, l', h')"
  shows "content h' (filePath l) = Some (write_at 0 (strconv_Itoa pid)
    (case content h (filePath l) of None \<Rightarrow> empty_file | Some f \<Rightarrow> f))"
  using assms by (elim TryLock_ok) (auto simp: content_def split: option.splits)


text \<open>
  Lock and owner agree. After a successful \<open>TryLock\<close>, \<open>Owner\<close> reads back the process id, provided
  the lock file was absent or what it held was no longer than the new process id.
\<close>

theorem TryLock_Owner:
  assumes "TryLock pid l h = (None, l', h')" and "0 \<le> pid" and "pid < 2 ^ 31"
    and "\<forall>f. content h (filePath l) = Some f \<longrightarrow>
           fsize f = length (fdata f) \<and> length (fdata f) \<le> length (strconv_Itoa pid)"
    and "refuse h OpOpen (filePath l) = None" and "refuse h OpRead (filePath l) = None"
  shows "Owner l' h' = Inr pid"
proof -
  note l' = TryLock_keeps(1) [OF assms(1)] and r = TryLock_keeps(2) [OF assms(1)]
  have "content h' (filePath l) = Some (file_of (strconv_Itoa pid))"
    using TryLock_content [OF assms(1)] assms(4)
    by (cases "content h (filePath l)") (auto simp: write_at_start)
  then have "os_ReadFile (filePath l) h' = Inr (strconv_Itoa pid)"
    using os_ReadFile_content [of h' "filePath l"] assms(5,6) r by simp
  then show ?thesis
    using strconv_Atoi_Itoa [of pid] assms(2,3) by (simp add: Owner_def l')
qed

definition demo_lock :: pidctx where
  "demo_lock = pidlock_New ''/x.pid''"

theorem TryLock_Owner_witness:
  "\<exists>l' h'. TryLock 43 demo_lock (host_with [(''/x.pid'', ''99'')] []) = (None, l', h') \<and>
     Owner l' h' = Inr 43"
proof -
  let ?h = "host_with [(''/x.pid'', ''99'')] []"
  have "fst (TryLock 43 demo_lock ?h) = None" by code_simp
  then obtain l' h' where r: "TryLock 43 demo_lock ?h = (None, l', h')" by (metis prod.collapse)
  have "length (strconv_Itoa 43) = 2" by code_simp
  then have "\<forall>f. content ?h (filePath demo_lock) = Some f \<longrightarrow>
      fsize f = length (fdata f) \<and> length (fdata f) \<le> length (strconv_Itoa 43)"
    by (simp add: content_def host_with_def demo_lock_def pidlock_New_def file_of_def)
  with TryLock_Owner [OF r] r show ?thesis by auto
qed

text \<open>
  The file is not truncated: when a longer number was left in it, its tail stays. A process with
  the id 99 that takes over a lock file left with \<open>12345\<close> is recorded as the process 99345.
\<close>

theorem TryLock_stale_owner:
  "\<exists>l' h'. TryLock 99 demo_lock (host_with [(''/x.pid'', ''12345'')] []) = (None, l', h') \<and>
     Owner l' h' = Inr 99345"
proof -
  let ?h = "host_with [(''/x.pid'', ''12345'')] []"
  have "fst (TryLock 99 demo_lock ?h) = None" by code_simp
  then obtain l' h' where r: "TryLock 99 demo_lock ?h = (None, l', h')" by (metis prod.collapse)
  have l': "filePath l' = ''/x.pid''" and re: "refuse h' = refuse ?h"
    using TryLock_keeps [OF r] by (simp_all add: demo_lock_def pidlock_New_def)
  have "content ?h ''/x.pid'' = Some (file_of ''12345'')" by (simp add: content_def host_with_def)
  moreover have "strconv_Itoa 99 = ''99''" by code_simp
  ultimately have "content h' ''/x.pid'' = Some (file_of ''99345'')"
    using TryLock_content [OF r] by (simp add: demo_lock_def pidlock_New_def write_at_def file_of_def)
  then have "os_ReadFile ''/x.pid'' h' = Inr ''99345''"
    using os_ReadFile_content [of h' "''/x.pid''"] re by simp
  moreover have "strconv_Atoi ''99345'' = Inr 99345"
    by (simp add: strconv_Atoi_def is_digit_def digits_val_def digit_val_def)
  ultimately show ?thesis using r by (simp add: Owner_def l')
qed

text \<open>
  \<open>TryLock\<close> does not wait and does not steal: while another descriptor holds the lock of the file
  at the path, it fails with the error of the refused lock, and the lock stays with its holder.
\<close>

theorem TryLock_busy:
  assumes "names h (filePath l) = Some (File i)" and "flocks h i = Some fd" and "fd < next_fd h"
    and "refuse h OpOpen (filePath l) = None" and "refuse h OpFlock (filePath l) = None"
  shows "\<exists>h'. TryLock pid l h = (Some (Wrap ''lock pid file failed: '' (Errno EAGAIN)), l, h') \<and>
    flocks h' i = Some fd \<and> files h' = files h \<and> names h' = names h"
proof -
  let ?h2 = "snd (fd_new (filePath l) i h)"
  have "open_create False (filePath l) h = (Inr i, h)" using assms by (simp add: open_create_def)
  moreover have "flock_ex (next_fd h) ?h2 = (Some EAGAIN, ?h2)"
    by (rule flock_ex_busy) (use assms in \<open>auto simp: fd_new_def\<close>)
  ultimately show ?thesis using assms(2) by (simp add: TryLock_def fd_new_def)
qed

definition busy_host :: hostfs where
  "busy_host = (host_with [(''/x.pid'', ''7'')] [])\<lparr>flocks := (\<lambda>i. if i = 0 then Some 0 else None), next_fd := 1\<rparr>"

theorem TryLock_busy_witness:
  "\<exists>h'. TryLock 8 demo_lock busy_host = (Some (Wrap ''lock pid file failed: '' (Errno EAGAIN)), demo_lock, h') \<and>
    flocks h' 0 = Some 0"
  using TryLock_busy [of busy_host demo_lock 0 0 8]
  by (auto simp: busy_host_def demo_lock_def pidlock_New_def host_with_def)

lemma Unlock_releases:
  assumes "fh l = Some fd" and "filePath l \<noteq> []" and "refuse h OpRemove (filePath l) = None"
  shows "names (Unlock l h) (filePath l) = None" and "flocks (Unlock l h) i \<noteq> Some fd"
  using assms
  by (auto simp: Unlock_def flock_un_def fd_Close_def drop_locks_def os_RemoveAll_def Let_def)

section \<open>Mutual exclusion\<close>

fun pc_fd :: "lock_pc \<Rightarrow> nat option" where
  "pc_fd (Opened fd) = Some fd"
| "pc_fd (Locked fd) = Some fd"
| "pc_fd (Owning fd) = Some fd"
| "pc_fd (Released fd) = Some fd"
| "pc_fd _ = None"

definition lock_inv :: "lock_system \<Rightarrow> bool" where
  "lock_inv s =
     ((\<forall>i fd. pc_fd (sys_pc s i) = Some fd \<longrightarrow> fd < next_fd (sys_host s)) \<and>
      (\<forall>i j fd. pc_fd (sys_pc s i) = Some fd \<longrightarrow> pc_fd (sys_pc s j) = Some fd \<longrightarrow> i = j) \<and>
      (\<forall>i fd. holds s i fd \<longrightarrow> flocks (sys_host s) (fd_ino (fds (sys_host s) fd)) = Some fd))"

lemma holds_pc_fd: "holds s i fd \<Longrightarrow> pc_fd (sys_pc s i) = Some fd"
  by (auto simp: holds_def)

text \<open>
  A step of process \<open>i\<close> keeps the invariant when it moves to a point with a fresh descriptor, its old
  one or none, keeps the inodes of the descriptors in use, and keeps the locks of the others.
\<close>

lemma lock_inv_upd:
  assumes inv: "lock_inv s" and nx: "next_fd (sys_host s) \<le> next_fd h"
    and pc: "\<And>fd. pc_fd pc = Some fd \<Longrightarrow> pc_fd (sys_pc s i) = Some fd \<or> (fd = next_fd (sys_host s) \<and> fd < next_fd h)"
    and ino: "\<And>fd. fd < next_fd (sys_host s) \<Longrightarrow> fd_ino (fds h fd) = fd_ino (fds (sys_host s) fd)"
    and others: "\<And>j fd. j \<noteq> i \<Longrightarrow> holds s j fd \<Longrightarrow> flocks h (fd_ino (fds (sys_host s) fd)) = Some fd"
    and own: "\<And>fd. pc = Locked fd \<or> pc = Owning fd \<Longrightarrow> flocks h (fd_ino (fds h fd)) = Some fd"
  shows "lock_inv (sys_upd s i pc h)"
proof -
  have lt: "fd < next_fd (sys_host s)" if "pc_fd (sys_pc s j) = Some fd" for j fd
    using inv that by (simp add: lock_inv_def)
  have uniq: "j = k" if "pc_fd (sys_pc s j) = Some fd" "pc_fd (sys_pc s k) = Some fd" for j k fd
    using inv that unfolding lock_inv_def by blast
  have 1: "fd < next_fd h" if "pc_fd ((sys_pc (sys_upd s i pc h)) j) = Some fd" for j fd
    using that pc [of fd] lt nx by (fastforce simp: sys_upd_def split: if_splits)
  have 2: "j = k" if "pc_fd (sys_pc (sys_upd s i pc h) j) = Some fd"
    "pc_fd (sys_pc (sys_upd s i pc h) k) = Some fd" for j k fd
    using that pc [of fd] lt uniq by (fastforce simp: sys_upd_def split: if_splits)
  have 3: "flocks h (fd_ino (fds h fd)) = Some fd" if "holds (sys_upd s i pc h) j fd" for j fd
  proof (cases "j = i")
    case True
    with that own show ?thesis by (simp add: holds_def sys_upd_def)
  next
    case False
    with that have "holds s j fd" by (simp add: holds_def sys_upd_def)
    with others [OF False] ino lt holds_pc_fd show ?thesis by fastforce
  qed
  have h: "sys_host (sys_upd s i pc h) = h" by (simp add: sys_upd_def)
  show ?thesis unfolding lock_inv_def h using 1 2 3 by blast
qed

text \<open>The facts of the steps: which descriptors and locks a system call of one process touches.\<close>

lemma lock_inv_holds: "lock_inv s \<Longrightarrow> holds s j fd \<Longrightarrow> flocks (sys_host s) (fd_ino (fds (sys_host s) fd)) = Some fd"
  by (simp add: lock_inv_def)

lemma lock_inv_lt: "lock_inv s \<Longrightarrow> pc_fd (sys_pc s j) = Some fd \<Longrightarrow> fd < next_fd (sys_host s)"
  by (simp add: lock_inv_def)

lemma lock_inv_other:
  "lock_inv s \<Longrightarrow> holds s j fd \<Longrightarrow> pc_fd (sys_pc s i) = Some fd' \<Longrightarrow> j \<noteq> i \<Longrightarrow> fd \<noteq> fd'"
  unfolding lock_inv_def using holds_pc_fd by blast

lemma lock_inv_open:
  assumes "lock_inv s" and "open_create False path (sys_host s) = (Inr ino, h1)"
    and "fd_new path ino h1 = (fd, h2)"
  shows "lock_inv (sys_upd s i (Opened fd) h2)"
proof -
  note o = open_create_ok [OF assms(2)] and n = fd_new_fields [OF assms(3)]
  show ?thesis
  proof (rule lock_inv_upd [OF assms(1)])
    fix j fda assume "j \<noteq> i" "holds s j fda"
    then show "flocks h2 (fd_ino (fds (sys_host s) fda)) = Some fda"
      using lock_inv_holds [OF assms(1)] n(3) o(15) by simp
  qed (use n(5,6,7) o(13,14) in auto)
qed

lemma lock_inv_flock:
  assumes "lock_inv s" and "sys_pc s i = Opened fd" and "flock_ex fd (sys_host s) = (None, h1)"
  shows "lock_inv (sys_upd s i (Locked fd) h1)"
proof (rule lock_inv_upd [OF assms(1)])
  note k = flock_ex_ok [OF assms(3)]
  show "next_fd (sys_host s) \<le> next_fd h1" using k(1) by simp
  fix j fda assume h: "j \<noteq> i" "holds s j fda"
  then have "fda \<noteq> fd" using lock_inv_other [OF assms(1) h(2), of i fd] assms(2) by simp
  with lock_inv_holds [OF assms(1) h(2)] k(2)
  have "fd_ino (fds (sys_host s) fda) \<noteq> fd_ino (fds (sys_host s) fd)" by auto
  then show "flocks h1 (fd_ino (fds (sys_host s) fda)) = Some fda"
    using lock_inv_holds [OF assms(1) h(2)] k(1) by simp
qed (use assms(2) flock_ex_ok(1) [OF assms(3)] in auto)

lemma lock_inv_write:
  assumes "lock_inv s" and "sys_pc s i = Locked fd" and "fd_Write fd d (sys_host s) = (None, h1)"
  shows "lock_inv (sys_upd s i (Owning fd) h1)"
proof (rule lock_inv_upd [OF assms(1)])
  have own: "holds s i fd" using assms(2) by (simp add: holds_def)
  show "flocks h1 (fd_ino (fds h1 fda)) = Some fda" if "Owning fd = Locked fda \<or> Owning fd = Owning fda" for fda
    using that lock_inv_holds [OF assms(1) own] fd_Write_ok [OF assms(3)] by auto
  show "flocks h1 (fd_ino (fds (sys_host s) fda)) = Some fda" if "holds s j fda" for j fda
    using lock_inv_holds [OF assms(1) that] fd_Write_ok [OF assms(3)] by simp
qed (use assms(2) fd_Write_ok [OF assms(3)] in auto)

lemma lock_inv_leave:
  assumes "lock_inv s" and "pc_fd (sys_pc s i) = Some fd" and "pc = Released fd \<or> pc_fd pc = None"
    and "next_fd h1 = next_fd (sys_host s)"
    and "\<And>f. fd_ino (fds h1 f) = fd_ino (fds (sys_host s) f)"
    and "flocks h1 = flocks (sys_host s) \<or> flocks h1 = drop_locks fd (flocks (sys_host s))"
  shows "lock_inv (sys_upd s i pc h1)"
proof (rule lock_inv_upd [OF assms(1)])
  fix j fda assume h: "j \<noteq> i" "holds s j fda"
  then have "fda \<noteq> fd" using lock_inv_other [OF assms(1) h(2) assms(2)] by simp
  then show "flocks h1 (fd_ino (fds (sys_host s) fda)) = Some fda"
    using lock_inv_holds [OF assms(1) h(2)] assms(6) by (auto simp: drop_locks_def)
qed (use assms in auto)

lemma lock_inv_remove:
  assumes "lock_inv s" and "sys_pc s i = Closed"
  shows "lock_inv (sys_upd s i Ended (snd (os_RemoveAll path (sys_host s))))"
  by (rule lock_inv_upd [OF assms(1)])
    (use lock_inv_holds [OF assms(1)] in \<open>auto simp: os_RemoveAll_def split: option.split\<close>)

lemma lock_inv_open_fails:
  assumes "lock_inv s" and "open_create t path (sys_host s) = (Inl e, h1)"
  shows "lock_inv (sys_upd s i Ended h1)"
  by (rule lock_inv_upd [OF assms(1)])
    (use lock_inv_holds [OF assms(1)] open_create_err [OF assms(2)] in auto)

lemma lock_inv_step: "lock_step path s t \<Longrightarrow> lock_inv s \<Longrightarrow> lock_inv t"
proof (induction rule: lock_step.induct)
  case (flock_fails s i fd e h1)
  then have "h1 = sys_host s" by (auto simp: flock_ex_def Let_def split: option.splits if_splits)
  with flock_fails show ?case by (intro lock_inv_leave) (auto simp: fd_Close_def Let_def)
next
  case (write_fails s i fd e h1)
  then show ?case
    by (intro lock_inv_leave) (auto simp: fd_Write_def fh_Write_def fd_Close_def Let_def split: option.splits if_splits)
next
  case (killed s i fd)
  then show ?case by (intro lock_inv_leave) (auto simp: fd_Close_def Let_def)
next
  case (do_unlock s i fd)
  then show ?case by (intro lock_inv_leave) (auto simp: flock_un_def)
next
  case (do_close s i fd)
  then show ?case by (intro lock_inv_leave) (auto simp: fd_Close_def Let_def)
qed (auto intro: lock_inv_open lock_inv_open_fails lock_inv_flock lock_inv_write lock_inv_remove)

interpretation locking: safe_steps "lock_step path" lock_inv for path
  by unfold_locales (rule lock_inv_step)

lemma lock_inv_reachable: "lock_reachable path h0 s \<Longrightarrow> lock_inv s"
  by (erule locking.reached) (simp add: lock_inv_def lock_sys_init_def holds_def)

text \<open>
  C5: In every reachable state of any number of processes, some of which may have been killed, two processes between the successful lock
  and the release of it are on different files: no two hold the lock of one file.
\<close>

theorem lock_exclusive:
  assumes "lock_reachable path h0 s" and "holds s i fd" and "holds s j fd'"
    and "fd_ino (fds (sys_host s) fd) = fd_ino (fds (sys_host s) fd')"
  shows "i = j"
proof -
  note inv = lock_inv_reachable [OF assms(1)]
  have "Some fd = flocks (sys_host s) (fd_ino (fds (sys_host s) fd))"
    using lock_inv_holds [OF inv assms(2)] by (rule sym)
  also have "\<dots> = Some fd'" unfolding assms(4) by (rule lock_inv_holds [OF inv assms(3)])
  finally show ?thesis using lock_inv_other [OF inv assms(2) holds_pc_fd [OF assms(3)]] by blast
qed

text \<open>The steps of one process as a function, to run a schedule of processes.\<close>

fun lock_exec :: "string \<Rightarrow> nat \<Rightarrow> lock_system \<Rightarrow> lock_system" where
  "lock_exec path i s =
     (case sys_pc s i of
        NotStarted \<Rightarrow>
          (case open_create False path (sys_host s) of
             (Inr ino, h1) \<Rightarrow> (case fd_new path ino h1 of (fd, h2) \<Rightarrow> sys_upd s i (Opened fd) h2)
           | (Inl e, h1) \<Rightarrow> sys_upd s i Ended h1)
      | Opened fd \<Rightarrow>
          (case flock_ex fd (sys_host s) of
             (None, h1) \<Rightarrow> sys_upd s i (Locked fd) h1
           | (Some e, h1) \<Rightarrow> sys_upd s i Ended (snd (fd_Close fd h1)))
      | Locked fd \<Rightarrow>
          (case fd_Write fd (strconv_Itoa (int i)) (sys_host s) of
             (None, h1) \<Rightarrow> sys_upd s i (Owning fd) h1
           | (Some e, h1) \<Rightarrow> sys_upd s i Ended (snd (fd_Close fd h1)))
      | Owning fd \<Rightarrow> sys_upd s i (Released fd) (flock_un fd (sys_host s))
      | Released fd \<Rightarrow> sys_upd s i Closed (snd (fd_Close fd (sys_host s)))
      | Closed \<Rightarrow> sys_upd s i Ended (snd (os_RemoveAll path (sys_host s)))
      | Ended \<Rightarrow> s)"

lemma lock_exec_step: "lock_exec path i s = s \<or> lock_step path s (lock_exec path i s)"
  by (auto split: lock_pc.split prod.split sum.split option.split intro: lock_step.intros)

lemma lock_exec_reachable: "lock_reachable path h0 s \<Longrightarrow> lock_reachable path h0 (lock_exec path i s)"
  using lock_exec_step [of path i s] lock_next by (metis (no_types))

lemma lock_run_reachable: "lock_reachable path h0 (fold (lock_exec path) sched (lock_sys_init h0))"
proof -
  have "lock_reachable path h0 s \<Longrightarrow> lock_reachable path h0 (fold (lock_exec path) sched s)" for s
    by (induction sched arbitrary: s) (simp_all add: lock_exec_reachable del: lock_exec.simps)
  then show ?thesis using lock_start by blast
qed

definition race_end :: lock_system where
  "race_end = fold (lock_exec ''/x.pid'') [0, 0, 0, 0, 0, 1, 1, 1, 0, 2, 2, 2] (lock_sys_init (host_with [] []))"

theorem lock_exclusive_witness:
  "lock_reachable ''/x.pid'' (host_with [] []) race_end \<and> holds race_end 1 1 \<and>
   \<not> (holds race_end 2 2 \<and> fd_ino (fds (sys_host race_end) 2) = fd_ino (fds (sys_host race_end) 1))"
proof -
  have r: "lock_reachable ''/x.pid'' (host_with [] []) race_end"
    unfolding race_end_def by (rule lock_run_reachable)
  moreover have h: "holds race_end 1 1" by code_simp
  ultimately show ?thesis using lock_exclusive [OF r _ h] by fastforce
qed

text \<open>
  C38: Exclusion does not reach across a release: \<open>Unlock\<close> removes the file after it gave up the lock, so
  a process that took the lock of the same file in between keeps a lock of a file without a name, and
  the next process locks a new one. There is a run in which the processes 1 and 2 both own the lock.
\<close>

theorem lock_race:
  "\<exists>s. lock_reachable ''/x.pid'' (host_with [] []) s \<and> sys_pc s 1 = Owning 1 \<and> sys_pc s 2 = Owning 2"
proof -
  have "sys_pc race_end 1 = Owning 1" and "sys_pc race_end 2 = Owning 2" by code_simp+
  then show ?thesis using lock_run_reachable race_end_def by metis
qed

end
