(* ===== verification/Single_Instance.thy ===== *)
theory Single_Instance
  imports Pidlock Logger
begin

text \<open>
  Taking over from a running instance (src/cmd/ovm/single_instance.go) and waiting for the bound
  process (src/cmd/ovm/wait_bind_pid.go). The calls of other processes and of the library that reads the
  process table are the fields of \<open>proc_env\<close>: \<open>kill_answer n\<close> answers the \<open>n\<close>-th \<open>kill\<close> of this
  process, and \<open>elapse i\<close> is what other processes do to the host during the \<open>i\<close>-th second of waiting.
\<close>

record proc_env =
  getpid :: int
  now_text :: string
  kill_answer :: "nat \<Rightarrow> int \<Rightarrow> nat \<Rightarrow> errno option"
  new_process :: "int \<Rightarrow> goerr option"
  proc_exe :: "int \<Rightarrow> string res"
  eval_symlinks :: "string \<Rightarrow> string res"
  elapse :: "nat \<Rightarrow> hostfs \<Rightarrow> hostfs"

text \<open>The host and the signals this process has sent, oldest first.\<close>

record inst =
  ihost :: hostfs
  sent :: "(int \<times> nat) list"

definition int32 :: "int \<Rightarrow> int" where
  "int32 i = (i + 2 ^ 31) mod 2 ^ 32 - 2 ^ 31"

definition on_host :: "(hostfs \<Rightarrow> hostfs) \<Rightarrow> inst \<Rightarrow> inst" where
  "on_host f s = s\<lparr>ihost := f (ihost s)\<rparr>"

definition say_info :: "proc_env \<Rightarrow> logctx \<Rightarrow> string \<Rightarrow> inst \<Rightarrow> inst" where
  "say_info env log m = on_host (log_Info log (now_text env) m)"

definition say_warn :: "proc_env \<Rightarrow> logctx \<Rightarrow> string \<Rightarrow> inst \<Rightarrow> inst" where
  "say_warn env log m = on_host (\<lambda>h. snd (log_Warn log (now_text env) m h))"

definition say_error :: "proc_env \<Rightarrow> logctx \<Rightarrow> string \<Rightarrow> inst \<Rightarrow> inst" where
  "say_error env log m = on_host (\<lambda>h. snd (log_Error log (now_text env) m h))"

text \<open>The three functions of src/pkg/utils/process.go, with the signal recorded.\<close>

definition answers :: "proc_env \<Rightarrow> inst \<Rightarrow> int \<Rightarrow> nat \<Rightarrow> errno option" where
  "answers env s = kill_answer env (length (sent s))"

definition sent_to :: "int \<Rightarrow> nat \<Rightarrow> inst \<Rightarrow> inst" where
  "sent_to pid sig s = s\<lparr>sent := sent s @ [(pid, sig)]\<rparr>"

definition do_suicide :: "proc_env \<Rightarrow> int \<Rightarrow> inst \<Rightarrow> goerr option \<times> inst" where
  "do_suicide env pid s = (NotifyProcessSuicide (answers env s) pid, sent_to pid SIGTERM s)"

definition do_force :: "proc_env \<Rightarrow> int \<Rightarrow> inst \<Rightarrow> goerr option \<times> inst" where
  "do_force env pid s = (ForceKill (answers env s) pid, sent_to pid SIGKILL s)"

definition do_exists :: "proc_env \<Rightarrow> int \<Rightarrow> inst \<Rightarrow> bool \<times> inst" where
  "do_exists env pid s = (ProcessExists (answers env s) pid, sent_to pid 0 s)"

text \<open>The loop of ten probes a second apart: whether the process was seen to have exited.\<close>

fun wait_exit :: "proc_env \<Rightarrow> int \<Rightarrow> nat \<Rightarrow> inst \<Rightarrow> bool \<times> inst" where
  "wait_exit env owner 0 s = (False, s)"
| "wait_exit env owner (Suc k) s =
     (case do_exists env owner s of
        (False, s1) \<Rightarrow> (True, s1)
      | (True, s1) \<Rightarrow> wait_exit env owner k (on_host (elapse env (9 - k)) s1))"

text \<open>From the matching executable on: ask the owner to stop, wait, and kill it if it does not.\<close>

definition wait_previous :: "proc_env \<Rightarrow> logctx \<Rightarrow> int \<Rightarrow> inst \<Rightarrow> inst" where
  "wait_previous env log owner s =
     (case wait_exit env owner 10
             (say_info env log (''send SIGTERM to '' @ strconv_Itoa owner @ '' success, wait 10s process exit'') s) of
        (True, s2) \<Rightarrow> say_info env log ''kill previous process success, try lock again'' s2
      | (False, s2) \<Rightarrow>
          (case do_force env owner
                  (say_warn env log (''process '' @ strconv_Itoa owner @ '' not exited, try force kill'') s2) of
             (Some e, s3) \<Rightarrow>
               say_error env log (''force kill previous process error: '' @ err_text e @ '', try lock'') s3
           | (None, s3) \<Rightarrow> say_info env log ''kill previous process success, try lock again'' s3))"

definition kill_previous :: "proc_env \<Rightarrow> logctx \<Rightarrow> int \<Rightarrow> inst \<Rightarrow> inst" where
  "kill_previous env log owner s =
     (case do_suicide env owner s of
        (None, s1) \<Rightarrow> wait_previous env log owner s1
      | (Some e, s1) \<Rightarrow>
          (case do_force env owner
                  (say_error env log (''kill previous process error: '' @ err_text e @ '', try force kill'') s1) of
             (Some e', s2) \<Rightarrow>
               say_error env log (''force kill previous process error: '' @ err_text e' @ ''. try lock'') s2
           | (None, s2) \<Rightarrow> wait_previous env log owner s2))"

text \<open>
  From the existing lock file to the point where the code calls \<open>TryLock\<close>, which every one of its
  branches does. A failed \<open>EvalSymlinks\<close> is only logged: the path it returned is then empty.
\<close>

definition stop_previous :: "proc_env \<Rightarrow> logctx \<Rightarrow> pidctx \<Rightarrow> string \<Rightarrow> inst \<Rightarrow> inst" where
  "stop_previous env log lock executablePath s =
     (let s1 = say_info env log ''pid lock file exists, try kill previous process'' s
      in case Owner lock (ihost s1) of
           Inl e \<Rightarrow> say_warn env log (''get pid lock owner error: '' @ err_text e @ '', try lock'') s1
         | Inr owner \<Rightarrow>
             (let o_txt = strconv_Itoa owner;
                  s2 = say_info env log (''pid lock owner: '' @ o_txt) s1
              in case new_process env (int32 owner) of
                   Some e \<Rightarrow>
                     say_info env log (''pid lock owner '' @ o_txt @ '' not exists, error: '' @ err_text e @ '', try lock'') s2
                 | None \<Rightarrow>
                     (case proc_exe env (int32 owner) of
                        Inl e \<Rightarrow>
                          say_error env log (''get pid lock owner '' @ o_txt @ '' exe error: '' @ err_text e @ '', try lock'') s2
                      | Inr exe \<Rightarrow>
                          (let (realExe, s3) =
                                 (case eval_symlinks env exe of
                                    Inr r \<Rightarrow> (r, s2)
                                  | Inl e \<Rightarrow>
                                      ([], say_error env log (''get pid lock owner '' @ o_txt @ '' real path '' @ exe @
                                             '' error: '' @ err_text e @ '', try lock'') s2));
                               s4 = say_info env log (''pid lock owner '' @ o_txt @ '' exe: '' @ [CHR 0x27] @ realExe @ [CHR 0x27]) s3
                           in if strings_ToLower realExe \<noteq> executablePath
                              then say_info env log (''pid lock owner '' @ o_txt @ '' exe '' @ [CHR 0x27] @ realExe @ [CHR 0x27] @
                                     '' not match '' @ [CHR 0x27] @ executablePath @ [CHR 0x27] @ '', try lock'') s4
                              else kill_previous env log owner s4))))"

definition lock_result :: "proc_env \<Rightarrow> pidctx \<Rightarrow> inst \<Rightarrow> (pidctx option \<times> goerr option) \<times> inst" where
  "lock_result env lock s =
     (case TryLock (getpid env) lock (ihost s) of (err, l, h) \<Rightarrow> ((Some l, err), s\<lparr>ihost := h\<rparr>))"

text \<open>
  \<open>makeSingleInstance\<close>: \<open>defer log.Close()\<close> is registered before the error of the logger is looked at;
  without a logger it runs on the nil pointer and panics.
\<close>

definition makeSingleInstance ::
  "proc_env \<Rightarrow> string \<Rightarrow> string \<Rightarrow> string \<Rightarrow> inst \<Rightarrow> (pidctx option \<times> goerr option) outcome \<times> inst" where
  "makeSingleInstance env logPath lockFile executablePath s =
     (case NewWithoutManage logPath ''single-instance'' (ihost s) of
        (Inl e, h) \<Rightarrow> (Panic, s\<lparr>ihost := h\<rparr>)
      | (Inr log, h) \<Rightarrow>
          (let s0 = s\<lparr>ihost := h\<rparr>;
               lock = pidlock_New lockFile;
               (r, s1) =
                 (case PathExists lockFile h of
                    Inl e \<Rightarrow> ((None, Some (Wrap ''check pid file failed: '' e)), s0)
                  | Inr False \<Rightarrow> lock_result env lock s0
                  | Inr True \<Rightarrow> lock_result env lock (stop_previous env log lock executablePath s0))
           in (Ret r, on_host (log_Close log) s1)))"

section \<open>Waiting for the bound process\<close>

text \<open>
  \<open>waitBindPID\<close>: \<open>ctx_err n\<close> and \<open>kill n\<close> are what the \<open>n\<close>-th round sees of the context and of the
  process table. The loop may run forever: then the result is \<open>None\<close>. With the process id 0 it waits for
  the context alone (\<open>ctx_ends\<close> says whether that is ever cancelled). The result is the messages logged
  and the number of the last round.
\<close>

partial_function (option) bind_loop ::
  "(nat \<Rightarrow> bool) \<Rightarrow> (nat \<Rightarrow> bool) \<Rightarrow> int \<Rightarrow> nat \<Rightarrow> (string \<times> nat) option" where
  "bind_loop ctx_err alive pid n =
     (if ctx_err n then Some (''cancel wait bind pid, because context done'', n)
      else if \<not> alive n then Some (''bind pid: '' @ strconv_Itoa pid @ '' exited'', n)
      else bind_loop ctx_err alive pid (Suc n))"

definition waitBindPID ::
  "bool \<Rightarrow> (nat \<Rightarrow> bool) \<Rightarrow> (nat \<Rightarrow> int \<Rightarrow> nat \<Rightarrow> errno option) \<Rightarrow> int \<Rightarrow> (string list \<times> nat) option" where
  "waitBindPID ctx_ends ctx_err kill pid =
     (if pid = 0 then (if ctx_ends then Some ([''pid is 0, no need to wait''], 0) else None)
      else map_option (\<lambda>(m, n). ([''wait bind pid: '' @ strconv_Itoa pid @ '' exit'', m], n))
             (bind_loop ctx_err (\<lambda>n. ProcessExists (kill n) pid) pid 0))"

section \<open>The signals\<close>

lemma sent_say [simp]:
  "sent (say_info env log m s) = sent s" "sent (say_warn env log m s) = sent s"
  "sent (say_error env log m s) = sent s" "sent (on_host f s) = sent s"
  by (simp_all add: say_info_def say_warn_def say_error_def on_host_def)

lemma sent_sent_to [simp]: "sent (sent_to pid sig s) = sent s @ [(pid, sig)]"
  by (simp add: sent_to_def)

text \<open>
  The probes: all of them are to the owner, with the signal 0; a process that was not seen to exit was
  probed at every second.
\<close>

lemma wait_exit_sent:
  "wait_exit env owner n s = (b, s') \<Longrightarrow>
     \<exists>k \<le> n. sent s' = sent s @ replicate k (owner, 0) \<and> (\<not> b \<longrightarrow> k = n)"
proof (induction n arbitrary: s)
  case (Suc n)
  obtain b1 s1 where e: "do_exists env owner s = (b1, s1)" by (rule prod.exhaust)
  then have s1: "sent s1 = sent s @ [(owner, 0)]" by (auto simp: do_exists_def)
  show ?case
  proof (cases b1)
    case True
    with Suc.prems e have "wait_exit env owner n (on_host (elapse env (9 - n)) s1) = (b, s')" by simp
    from Suc.IH [OF this] obtain k where "k \<le> n" "sent s' = sent s1 @ replicate k (owner, 0)" "\<not> b \<longrightarrow> k = n"
      by auto
    then show ?thesis using s1 by (intro exI [of _ "Suc k"]) auto
  next
    case False
    with Suc.prems e s1 show ?thesis by (intro exI [of _ 1]) auto
  qed
qed simp

text \<open>
  What may be sent to a process: \<open>SIGTERM\<close>, a \<open>SIGKILL\<close> at once if that failed, up to ten probes, and a
  \<open>SIGKILL\<close> after ten probes that all found it alive.
\<close>

definition kill_shape :: "int \<Rightarrow> (int \<times> nat) list \<Rightarrow> bool" where
  "kill_shape owner l =
     (\<exists>a b k. l = (owner, SIGTERM) # a @ replicate k (owner, 0) @ b \<and> k \<le> 10 \<and>
        a \<in> {[], [(owner, SIGKILL)]} \<and> b \<in> {[], [(owner, SIGKILL)]} \<and> (b \<noteq> [] \<longrightarrow> k = 10))"

lemma kill_shape_length: "kill_shape owner l \<Longrightarrow> length l \<le> 13"
  by (auto simp: kill_shape_def)

lemma kill_shape_target: "kill_shape owner l \<Longrightarrow> (p, sig) \<in> set l \<Longrightarrow> p = owner"
  by (auto simp: kill_shape_def)

lemma kill_shapeI:
  assumes "l = (owner, SIGTERM) # a @ replicate k (owner, 0) @ b" and "k \<le> 10"
    and "a = [] \<or> a = [(owner, SIGKILL)]" and "b = [] \<or> b = [(owner, SIGKILL)] \<and> k = 10"
  shows "kill_shape owner l"
  unfolding kill_shape_def using assms by blast

lemma wait_previous_sent:
  "\<exists>k b. sent (wait_previous env log owner s) = sent s @ replicate k (owner, 0) @ b \<and> k \<le> 10 \<and>
     (b = [] \<or> b = [(owner, SIGKILL)] \<and> k = 10)"
proof -
  obtain b s2 where e: "wait_exit env owner 10 (say_info env log
      (''send SIGTERM to '' @ strconv_Itoa owner @ '' success, wait 10s process exit'') s) = (b, s2)"
    by (rule prod.exhaust)
  from wait_exit_sent [OF this] obtain k
    where k: "k \<le> 10" "sent s2 = sent s @ replicate k (owner, 0)" "\<not> b \<longrightarrow> k = 10"
    by auto
  then have "sent (wait_previous env log owner s) = sent s @ replicate k (owner, 0) @
      (if b then [] else [(owner, SIGKILL)])"
    unfolding wait_previous_def e by (cases b) (auto simp: do_force_def split: option.split)
  with k show ?thesis by (intro exI [of _ k]) auto
qed

lemma kill_previous_sent: "\<exists>l. sent (kill_previous env log owner s) = sent s @ l \<and> kill_shape owner l"
proof (cases "NotifyProcessSuicide (answers env s) owner")
  case None
  let ?s = "sent_to owner SIGTERM s"
  have "kill_previous env log owner s = wait_previous env log owner ?s"
    by (simp add: kill_previous_def do_suicide_def None)
  then show ?thesis
    using wait_previous_sent [of env log owner ?s] by (auto intro!: kill_shapeI [where a = "[]"])
next
  case (Some e)
  define s1 where "s1 = say_error env log (''kill previous process error: '' @ err_text e @ '', try force kill'')
    (sent_to owner SIGTERM s)"
  define s2 where "s2 = sent_to owner SIGKILL s1"
  have s2: "sent s2 = sent s @ [(owner, SIGTERM), (owner, SIGKILL)]" by (simp add: s2_def s1_def)
  have "kill_previous env log owner s = (case ForceKill (answers env s1) owner of
      None \<Rightarrow> wait_previous env log owner s2
    | Some e' \<Rightarrow> say_error env log (''force kill previous process error: '' @ err_text e' @ ''. try lock'') s2)"
    by (simp add: kill_previous_def do_suicide_def do_force_def Some s1_def s2_def split: option.split)
  moreover obtain k b where w: "sent (wait_previous env log owner s2) = sent s2 @ replicate k (owner, 0) @ b"
    and "k \<le> 10" "b = [] \<or> b = [(owner, SIGKILL)] \<and> k = 10"
    using wait_previous_sent [of env log owner s2] by blast
  then have "kill_shape owner ((owner, SIGTERM) # [(owner, SIGKILL)] @ replicate k (owner, 0) @ b)"
    by (intro kill_shapeI [OF refl]) auto
  moreover have "kill_shape owner ((owner, SIGTERM) # [(owner, SIGKILL)] @ replicate 0 (owner, 0) @ [])"
    by (rule kill_shapeI [OF refl]) auto
  ultimately show ?thesis
    using s2 w by (cases "ForceKill (answers env s1) owner") auto
qed

text \<open>The owner the code goes by: what the lock file holds when it is read, after one line was logged.\<close>

definition owner_seen :: "proc_env \<Rightarrow> string \<Rightarrow> string \<Rightarrow> hostfs \<Rightarrow> int res" where
  "owner_seen env logPath lockFile h =
     (case NewWithoutManage logPath ''single-instance'' h of
        (Inl e, _) \<Rightarrow> Inl e
      | (Inr log, h1) \<Rightarrow>
          Owner (pidlock_New lockFile)
            (log_Info log (now_text env) ''pid lock file exists, try kill previous process'' h1))"

definition runs :: "proc_env \<Rightarrow> int \<Rightarrow> string \<Rightarrow> bool" where
  "runs env pid exe =
     (new_process env (int32 pid) = None \<and>
      (\<exists>p r. proc_exe env (int32 pid) = Inr p \<and> eval_symlinks env p = Inr r \<and> strings_ToLower r = exe))"

lemma stop_previous_sent:
  assumes "executablePath \<noteq> []"
    and "sent (stop_previous env log lock executablePath s) \<noteq> sent s"
  shows "\<exists>owner l. Owner lock (log_Info log (now_text env) ''pid lock file exists, try kill previous process'' (ihost s)) = Inr owner \<and>
    runs env owner executablePath \<and>
    sent (stop_previous env log lock executablePath s) = sent s @ l \<and> kill_shape owner l"
proof -
  let ?s1 = "say_info env log ''pid lock file exists, try kill previous process'' s"
  have h: "ihost ?s1 = log_Info log (now_text env) ''pid lock file exists, try kill previous process'' (ihost s)"
    by (simp add: say_info_def on_host_def)
  obtain owner where o: "Owner lock (ihost ?s1) = Inr owner"
    using assms(2) by (cases "Owner lock (ihost ?s1)") (simp_all add: stop_previous_def Let_def)
  have np: "new_process env (int32 owner) = None"
    using assms(2) o by (cases "new_process env (int32 owner)") (simp_all add: stop_previous_def Let_def)
  obtain exe where pe: "proc_exe env (int32 owner) = Inr exe"
    using assms(2) o np by (cases "proc_exe env (int32 owner)") (simp_all add: stop_previous_def Let_def)
  obtain r where es: "eval_symlinks env exe = Inr r"
    using assms o np pe
    by (cases "eval_symlinks env exe") (simp_all add: stop_previous_def Let_def strings_ToLower_def)
  have m: "strings_ToLower r = executablePath"
    using assms(2) o np pe es by (simp add: stop_previous_def Let_def split: if_splits)
  define x where "x = say_info env log
      (''pid lock owner '' @ strconv_Itoa owner @ '' exe: '' @ [CHR 0x27] @ r @ [CHR 0x27])
      (say_info env log (''pid lock owner: '' @ strconv_Itoa owner) ?s1)"
  have "sent x = sent s" "stop_previous env log lock executablePath s = kill_previous env log owner x"
    using o np pe es m by (auto simp: stop_previous_def Let_def x_def)
  then show ?thesis
    using kill_previous_sent [of env log owner x] o h np pe es m by (auto simp: runs_def)
qed

lemma lock_result_sent [simp]: "sent (snd (lock_result env lock s)) = sent s"
  by (simp add: lock_result_def split: prod.split)

lemma makeSingleInstance_ret:
  assumes "NewWithoutManage logPath ''single-instance'' (ihost s) = (Inr log, h)"
  shows "makeSingleInstance env logPath lockFile executablePath s =
    (let s0 = s\<lparr>ihost := h\<rparr>; lock = pidlock_New lockFile;
         rs = (case PathExists lockFile h of
                 Inl e \<Rightarrow> ((None, Some (Wrap ''check pid file failed: '' e)), s0)
               | Inr b \<Rightarrow> lock_result env lock (if b then stop_previous env log lock executablePath s0 else s0))
     in (Ret (fst rs), on_host (log_Close log) (snd rs)))"
  using assms by (auto simp: makeSingleInstance_def Let_def split: sum.split bool.split prod.split)

text \<open>
  C8: Only a previous instance is signalled. Whatever \<open>makeSingleInstance\<close> does, it sends no signal at
  all, or the process the lock file names runs the executable of this program, every signal went to that
  process, and they are: \<open>SIGTERM\<close>, at once \<open>SIGKILL\<close> only when that was refused, at most ten probes, and
  \<open>SIGKILL\<close> in the end only after ten probes; at most thirteen calls in all.
\<close>

theorem makeSingleInstance_signals:
  assumes "executablePath \<noteq> []"
    and "makeSingleInstance env logPath lockFile executablePath s = (r, s')"
  shows "sent s' = sent s \<or>
    (\<exists>owner l. owner_seen env logPath lockFile (ihost s) = Inr owner \<and> runs env owner executablePath \<and>
       sent s' = sent s @ l \<and> kill_shape owner l \<and> length l \<le> 13 \<and> fst ` set l = {owner})"
proof (cases "NewWithoutManage logPath ''single-instance'' (ihost s)")
  case (Pair lr h)
  show ?thesis
  proof (cases lr)
    case (Inl e)
    with Pair assms(2) show ?thesis by (auto simp: makeSingleInstance_def)
  next
    case (Inr log)
    let ?stop = "stop_previous env log (pidlock_New lockFile) executablePath (s\<lparr>ihost := h\<rparr>)"
    have "sent s' = sent s \<or> sent s' = sent ?stop"
      using assms(2) makeSingleInstance_ret [OF Pair [unfolded Inr]]
      by (auto simp: Let_def split: sum.splits)
    moreover have "\<exists>owner l. owner_seen env logPath lockFile (ihost s) = Inr owner \<and>
        runs env owner executablePath \<and> sent ?stop = sent s @ l \<and> kill_shape owner l"
      if "sent ?stop \<noteq> sent s"
      using stop_previous_sent [OF assms(1), of env log "pidlock_New lockFile" "s\<lparr>ihost := h\<rparr>"] that Pair Inr
      by (auto simp: owner_seen_def)
    moreover have "fst ` set l = {owner}" if "kill_shape owner l" for owner l
      using that by (auto simp: kill_shape_def)
    ultimately show ?thesis using kill_shape_length by metis
  qed
qed

section \<open>The lock\<close>

lemma next_fd_log [host_simps]:
  "next_fd (log_base c t l m h) = next_fd h" "next_fd (log_Info c t m h) = next_fd h"
  "next_fd (snd (log_Warn c t m h)) = next_fd h" "next_fd (snd (log_Error c t m h)) = next_fd h"
proof -
  show b: "next_fd (log_base c t l m h) = next_fd h" for l
    by (auto simp: log_base_def fd_Write_def fh_Write_def Let_def split: option.splits)
  show "next_fd (log_Info c t m h) = next_fd h" "next_fd (snd (log_Warn c t m h)) = next_fd h"
    "next_fd (snd (log_Error c t m h)) = next_fd h"
    by (simp_all add: log_Info_def log_Warn_def log_Error_def b Let_def)
qed

lemma init_loop_next:
  assumes "init_loop (Suc k) p n fd h = (Inr r, h')"
  shows "(\<exists>h1. 0 < k \<and> init_loop k p n fd h1 = (Inr r, h')) \<or> (\<exists>q ino h2. fd_new q ino h2 = (r, h'))"
proof -
  obtain err h1 where e: "(case os_Stat (log_path p n (Suc k)) h of
      Inr _ \<Rightarrow> os_Rename (log_path p n (Suc k)) (path_Join [p, n @ ''.'' @ strconv_Itoa (int (Suc k) + 1) @ ''.log'']) h
    | Inl _ \<Rightarrow> (None, h)) = (err, h1)" by (rule prod.exhaust)
  have s: "(case err of Some e \<Rightarrow> (Inl (Wrap ''cannot rename log file: '' e), h1)
    | None \<Rightarrow> if Suc k = 1 then
        (case open_create True (log_path p n (Suc k)) h1 of
           (Inl e, h2) \<Rightarrow> (Inl (Wrap ''cannot open log file: '' e), h2)
         | (Inr ino, h2) \<Rightarrow> (let (f, h3) = fd_new (log_path p n (Suc k)) ino h2 in init_loop k p n f h3))
      else init_loop k p n fd h1) = (Inr r, h')"
    using assms unfolding init_loop.simps(2) Let_def e by (cases err) auto
  show ?thesis
  proof (cases "k = 0")
    case True
    with s show ?thesis by (auto split: option.splits prod.splits sum.splits)
  next
    case False
    with s show ?thesis by (auto split: option.splits)
  qed
qed

lemma init_loop_fd: "init_loop k p n fd h = (Inr r, h') \<Longrightarrow> 0 < k \<Longrightarrow> r < next_fd h'"
proof (induction k arbitrary: h)
  case (Suc k)
  from init_loop_next [OF Suc.prems(1)] show ?case using Suc.IH by (auto simp: fd_new_def)
qed simp

lemma NewWithoutManage_fd: "NewWithoutManage p n h = (Inr log, h') \<Longrightarrow> lfile log < next_fd h'"
  using init_loop_fd [of 4 p n 0 h]
  by (auto simp: NewWithoutManage_def logger_init_def log_max_def split: prod.splits sum.splits)

text \<open>
  What \<open>stop_previous\<close> keeps: descriptors are not reused, as long as other processes do not take
  numbers back.
\<close>

definition keeps_fds :: "proc_env \<Rightarrow> bool" where
  "keeps_fds env = (\<forall>i h. next_fd h \<le> next_fd (elapse env i h))"

lemma next_fd_say [simp]:
  "next_fd (ihost (say_info env log m s)) = next_fd (ihost s)"
  "next_fd (ihost (say_warn env log m s)) = next_fd (ihost s)"
  "next_fd (ihost (say_error env log m s)) = next_fd (ihost s)"
  "next_fd (ihost (sent_to pid sig s)) = next_fd (ihost s)"
  by (simp_all add: say_info_def say_warn_def say_error_def on_host_def host_simps sent_to_def)

lemma wait_exit_next_fd:
  "keeps_fds env \<Longrightarrow> wait_exit env owner n s = (b, s') \<Longrightarrow> next_fd (ihost s) \<le> next_fd (ihost s')"
proof (induction n arbitrary: s)
  case (Suc n)
  let ?s1 = "sent_to owner 0 s"
  let ?s2 = "on_host (elapse env (9 - n)) ?s1"
  have "next_fd (ihost s) \<le> next_fd (ihost ?s2)"
    using Suc.prems(1) by (simp add: keeps_fds_def on_host_def sent_to_def)
  then show ?case
    using Suc.IH [of ?s2] Suc.prems by (fastforce simp: do_exists_def split: bool.splits)
qed simp

lemma wait_previous_next_fd:
  assumes "keeps_fds env"
  shows "next_fd (ihost s) \<le> next_fd (ihost (wait_previous env log owner s))"
proof -
  obtain b s2 where e: "wait_exit env owner 10 (say_info env log
      (''send SIGTERM to '' @ strconv_Itoa owner @ '' success, wait 10s process exit'') s) = (b, s2)"
    by (rule prod.exhaust)
  from wait_exit_next_fd [OF assms this] show ?thesis
    unfolding wait_previous_def e by (cases b) (auto simp: do_force_def split: option.split)
qed

lemma kill_previous_next_fd:
  assumes "keeps_fds env"
  shows "next_fd (ihost s) \<le> next_fd (ihost (kill_previous env log owner s))"
  using wait_previous_next_fd [OF assms, of "sent_to owner SIGTERM s" log owner]
    wait_previous_next_fd [OF assms, of "sent_to owner SIGKILL (say_error env log m (sent_to owner SIGTERM s))" log owner for m]
  by (auto simp: kill_previous_def do_suicide_def do_force_def split: option.split)

lemma stop_previous_next_fd:
  assumes "keeps_fds env"
  shows "next_fd (ihost s) \<le> next_fd (ihost (stop_previous env log lock exe s))"
proof -
  have k: "next_fd (ihost s) \<le> next_fd (ihost (kill_previous env log owner x))"
    if "next_fd (ihost x) = next_fd (ihost s)" for owner x
    using kill_previous_next_fd [OF assms, of x log owner] that by simp
  show ?thesis by (auto simp: stop_previous_def Let_def intro!: k split: sum.split option.split prod.split)
qed

definition owns :: "pidctx \<Rightarrow> 'a hostfs_scheme \<Rightarrow> bool" where
  "owns l h =
     (case fh l of
        None \<Rightarrow> False
      | Some fd \<Rightarrow> fd_open (fds h fd) \<and> names h (filePath l) = Some (File (fd_ino (fds h fd))) \<and>
                   flocks h (fd_ino (fds h fd)) = Some fd)"

lemma TryLock_owns: "TryLock pid l h = (None, l', h') \<Longrightarrow> owns l' h' \<and> filePath l' = filePath l \<and> fh l' = Some (next_fd h)"
  by (elim TryLock_ok) (simp add: owns_def)

lemma owns_log_Close:
  "owns l h \<Longrightarrow> fh l = Some fd \<Longrightarrow> lfile log \<noteq> fd \<Longrightarrow> owns l (log_Close log h)"
  by (auto simp: owns_def log_Close_def fd_Close_def drop_locks_def Let_def split: option.splits)

text \<open>
  A result without an error is the lock. When \<open>makeSingleInstance\<close> returns no error, it returns a
  lock context for the lock file (never nil), whose descriptor is still open after the log was closed, is
  open on the file at the path and holds the advisory lock of that file.
\<close>

theorem makeSingleInstance_owns:
  assumes "keeps_fds env"
    and "makeSingleInstance env logPath lockFile executablePath s = (Ret (l, None), s')"
  shows "\<exists>lock. l = Some lock \<and> filePath lock = lockFile \<and> owns lock (ihost s')"
proof (cases "NewWithoutManage logPath ''single-instance'' (ihost s)")
  case (Pair lr h)
  obtain log where lr: "lr = Inr log"
    using assms(2) Pair by (cases lr) (simp_all add: makeSingleInstance_def)
  let ?lock = "pidlock_New lockFile" and ?s0 = "s\<lparr>ihost := h\<rparr>"
  obtain b where b: "PathExists lockFile h = Inr b"
    using assms(2) makeSingleInstance_ret [OF Pair [unfolded lr]]
    by (cases "PathExists lockFile h") (auto simp: Let_def)
  define s1 where "s1 = (if b then stop_previous env log ?lock executablePath ?s0 else ?s0)"
  have le: "next_fd h \<le> next_fd (ihost s1)"
    using stop_previous_next_fd [OF assms(1), of ?s0 log ?lock executablePath] by (simp add: s1_def)
  obtain err l' h' where t: "TryLock (getpid env) ?lock (ihost s1) = (err, l', h')" by (rule prod_cases3)
  have "err = None" "l = Some l'" and s': "s' = on_host (log_Close log) (s1\<lparr>ihost := h'\<rparr>)"
    using assms(2) makeSingleInstance_ret [OF Pair [unfolded lr], of env lockFile executablePath] b t
    by (auto simp: Let_def lock_result_def s1_def)
  note o = TryLock_owns [OF t [unfolded \<open>err = None\<close>]]
  have "lfile log \<noteq> next_fd (ihost s1)" using NewWithoutManage_fd [OF Pair [unfolded lr]] le by simp
  then have "owns l' (ihost s')" using owns_log_Close [of l' h'] o by (simp add: s' on_host_def)
  then show ?thesis using \<open>l = Some l'\<close> o by (simp add: pidlock_New_def)
qed

definition old_instance :: proc_env where
  "old_instance =
     \<lparr>getpid = 43, now_text = ''now'',
      kill_answer = (\<lambda>n pid sig. if pid = 41 \<and> n < 2 then None else Some ESRCH),
      new_process = (\<lambda>pid. if pid = 41 then None else Some (Msg ''process does not exist'')),
      proc_exe = (\<lambda>_. Inr ''/App/OVM''), eval_symlinks = Inr, elapse = (\<lambda>_ h. h)\<rparr>"

definition old_lock :: inst where
  "old_lock = \<lparr>ihost = host_with [(''/x.pid'', ''41'')] [''/l''], sent = []\<rparr>"

abbreviation takeover :: "(pidctx option \<times> goerr option) outcome \<times> inst" where
  "takeover \<equiv> makeSingleInstance old_instance ''/l'' ''/x.pid'' ''/app/ovm'' old_lock"

lemma takeover_sent: "sent (snd takeover) = [(41, SIGTERM), (41, 0), (41, 0)]"
  by code_simp

lemma takeover_ret: "(case fst takeover of Ret (l, None) \<Rightarrow> True | _ \<Rightarrow> False)"
  by code_simp

theorem makeSingleInstance_signals_witness:
  "\<exists>r s' owner l. takeover = (r, s') \<and> runs old_instance owner ''/app/ovm'' \<and> sent s' = l \<and> l \<noteq> [] \<and>
     kill_shape owner l"
proof -
  obtain r s' where t: "takeover = (r, s')" by (rule prod.exhaust)
  have "sent s' \<noteq> sent old_lock" and "sent old_lock = []"
    using takeover_sent t by (simp_all add: old_lock_def)
  then show ?thesis using makeSingleInstance_signals [OF _ t] t by fastforce
qed

theorem makeSingleInstance_owns_witness:
  "\<exists>lock s'. takeover = (Ret (Some lock, None), s') \<and> filePath lock = ''/x.pid'' \<and> owns lock (ihost s')"
proof -
  obtain l s' where t: "takeover = (Ret (l, None), s')"
    using takeover_ret by (cases takeover) (auto split: outcome.splits option.splits)
  have "keeps_fds old_instance" by (simp add: keeps_fds_def old_instance_def)
  from makeSingleInstance_owns [OF this t] show ?thesis using t by auto
qed

lemma init_loop_refused:
  assumes "refuse h OpOpen (log_path p n 1) \<noteq> None" and "0 < k"
  shows "\<not> is_ok (fst (init_loop k p n fd h))"
  using assms
proof (induction k arbitrary: h)
  case (Suc k)
  obtain err h1 where e: "(case os_Stat (log_path p n (Suc k)) h of
      Inr _ \<Rightarrow> os_Rename (log_path p n (Suc k)) (path_Join [p, n @ ''.'' @ strconv_Itoa (int (Suc k) + 1) @ ''.log'']) h
    | Inl _ \<Rightarrow> (None, h)) = (err, h1)" by (rule prod.exhaust)
  then have r: "refuse h1 = refuse h"
    by (auto simp: os_Rename_def Let_def split: sum.splits option.splits if_splits)
  then have "\<not> is_ok (fst (open_create True (log_path p n 1) h1))"
    using Suc.prems(1) by (auto simp: open_create_def)
  then show ?case
    using Suc.IH [of h1] Suc.prems(1) r
    unfolding init_loop.simps(2) Let_def e
    by (cases err; cases k) (auto split: prod.splits sum.splits)
qed simp

text \<open>
  The failure of the log is not reported: when the kernel refuses to open the log file of
  \<open>makeSingleInstance\<close>, the deferred \<open>log.Close()\<close> on the nil pointer panics before the prepared error is
  returned.
\<close>

theorem makeSingleInstance_panics:
  assumes "refuse (ihost s) OpOpen (log_path logPath ''single-instance'' 1) = Some e"
  shows "fst (makeSingleInstance env logPath lockFile executablePath s) = Panic"
proof -
  have "\<not> is_ok (fst (logger_init logPath ''single-instance'' (ihost s)))"
    unfolding logger_init_def by (rule init_loop_refused) (use assms in \<open>simp_all add: log_max_def\<close>)
  then show ?thesis
    by (auto simp: makeSingleInstance_def NewWithoutManage_def split: prod.split sum.splits)
qed

theorem makeSingleInstance_panics_witness:
  "fst (makeSingleInstance old_instance ''/l'' ''/x.pid'' ''/app/ovm''
     (old_lock\<lparr>ihost := (ihost old_lock)\<lparr>refuse := (\<lambda>op p. if op = OpOpen then Some EACCES else None)\<rparr>\<rparr>)) = Panic"
  by (rule makeSingleInstance_panics) simp

section \<open>Termination of the wait\<close>

lemma bind_loop_ends:
  assumes "bind_loop ctx_err alive pid n = Some (m, k)"
  shows "n \<le> k \<and> (ctx_err k \<or> \<not> alive k) \<and> (\<forall>j. n \<le> j \<and> j < k \<longrightarrow> \<not> ctx_err j \<and> alive j)"
proof -
  have "(case y of (m, k) \<Rightarrow> n \<le> k \<and> (ctx_err k \<or> \<not> alive k) \<and> (\<forall>j. n \<le> j \<and> j < k \<longrightarrow> \<not> ctx_err j \<and> alive j))"
    if "bind_loop ctx_err alive pid n = Some y" for y
  proof (rule bind_loop.raw_induct [OF _ that], goal_cases)
    case (1 loop ctx_err alive pid n y)
    show ?case
    proof (cases "ctx_err n \<or> \<not> alive n")
      case True
      with 1(2) show ?thesis by (auto split: if_splits)
    next
      case False
      with 1(2) have "loop ctx_err alive pid (Suc n) = Some y" by simp
      from 1(1) [OF this] False show ?thesis
        by (auto simp: le_Suc_eq) (metis Suc_leI le_neq_implies_less)+
    qed
  qed
  with assms show ?thesis by fastforce
qed

lemma bind_loop_found:
  assumes "ctx_err k \<or> \<not> alive k" and "n \<le> k"
  shows "\<exists>y. bind_loop ctx_err alive pid n = Some y"
  using assms(2)
proof (induction "k - n" arbitrary: n)
  case 0
  then have "n = k" by simp
  with assms(1) show ?case by (subst bind_loop.simps) auto
next
  case (Suc d)
  then have "\<exists>y. bind_loop ctx_err alive pid (Suc n) = Some y" by simp
  then show ?case by (subst bind_loop.simps) auto
qed


definition gone_after :: "nat \<Rightarrow> nat \<Rightarrow> int \<Rightarrow> nat \<Rightarrow> errno option" where
  "gone_after m n pid sig = (if n < m then None else Some ESRCH)"


end
