(* ===== verification/Ovm_Group.thy ===== *)
theory Ovm_Group
  imports Vm_Lifecycle Gvproxy Ssh_Agent Restful Exec_Stream Single_Instance
begin

text \<open>
  The goroutines of the program as one system (src/cmd/ovm/main.go, the group of \<open>main\<close>): the six that \<open>main\<close> starts and those that
  \<open>gvproxy.Run\<close> and \<open>vfkit.Run\<close> register, on the shared state of the process. What they do to that state is that of the
  other theories; when a goroutine returns is left to the environment as far as the code does.
\<close>

section \<open>The state of the process\<close>

record main_st =
  mctx :: setup_st
  mmanaged :: "logctx list"
  mlock :: "pidctx option"
  mev :: "evstate option"
  mchan :: channels
  msigs :: "string gochan"
  mnotified :: bool
  mout :: "string list"

type_synonym client = "nat \<Rightarrow> string \<Rightarrow> goerr + nat"

text \<open>The host of the process with its list of managed logs, and a call of the logger package on it.\<close>

definition log_host :: "main_st \<Rightarrow> loghost" where
  "log_host s = hostfs.extend (shost (mctx s)) \<lparr>managed = mmanaged s\<rparr>"

definition set_host :: "loghost \<Rightarrow> main_st \<Rightarrow> main_st" where
  "set_host h s = s\<lparr>mctx := (mctx s)\<lparr>shost := hostfs.truncate h\<rparr>, mmanaged := managed h\<rparr>"

definition with_logs :: "(loghost \<Rightarrow> 'r \<times> loghost) \<Rightarrow> main_st \<Rightarrow> 'r \<times> main_st" where
  "with_logs f s = (case f (log_host s) of (r, h) \<Rightarrow> (r, set_host h s))"

definition main_Info :: "string \<Rightarrow> logctx \<Rightarrow> string \<Rightarrow> main_st \<Rightarrow> main_st" where
  "main_Info now log m s = set_host (log_Info log now m (log_host s)) s"

definition main_Errorf :: "string \<Rightarrow> logctx \<Rightarrow> string \<Rightarrow> main_st \<Rightarrow> goerr \<times> main_st" where
  "main_Errorf now log m s = with_logs (log_Error log now m) s"

definition set_opt :: "cctx \<Rightarrow> main_st \<Rightarrow> main_st" where
  "set_opt c s = s\<lparr>mctx := (mctx s)\<lparr>sctx := c\<rparr>\<rparr>"

text \<open>
  A signal that the program asked for (\<open>mnotified\<close>): package \<open>os/signal\<close> sends it to the channel \<open>sigs\<close> and drops it when the channel is full.
\<close>

definition os_signal :: "string \<Rightarrow> main_st \<Rightarrow> main_st chan_res" where
  "os_signal sig s = (case chan_send sig (msigs s) of Blocks \<Rightarrow> Done s | Panics \<Rightarrow> Panics | Done c \<Rightarrow> Done (s\<lparr>msigs := c\<rparr>))"

section \<open>The goroutines\<close>

text \<open>The goroutine that waits for the guest: the answers of accepting and of reading a line.\<close>

definition ready_job :: "goerr option \<Rightarrow> goerr option \<Rightarrow> main_st \<Rightarrow> (goerr option \<times> main_st) chan_res" where
  "ready_job accept line s =
     (case accept of
        Some e \<Rightarrow> Done (Some (Msg (''ready accept timeout: '' @ err_text e)), s)
      | None \<Rightarrow>
          (case line of
             Some e \<Rightarrow> Done (Some (Wrap ''read ready failed: '' e), s)
           | None \<Rightarrow>
               (case NotifyVMReady (mchan s) of
                  Blocks \<Rightarrow> Blocks
                | Panics \<Rightarrow> Panics
                | Done c \<Rightarrow> map_res (\<lambda>e. (None, s\<lparr>mchan := c, mev := e\<rparr>)) (NotifyApp ''Ready'' (mev s)))))"

text \<open>The notifications of a goroutine, in their order.\<close>

fun notify_all :: "string list \<Rightarrow> evstate option \<Rightarrow> evstate option chan_res" where
  "notify_all [] e = Done e"
| "notify_all (n # ns) e = (case NotifyApp n e of Done e' \<Rightarrow> notify_all ns e' | Blocks \<Rightarrow> Blocks | Panics \<Rightarrow> Panics)"

definition gvproxy_job :: "gv_env \<Rightarrow> main_st \<Rightarrow> (gv_out \<times> main_st) chan_res" where
  "gvproxy_job genv s =
     (case gvproxy_Run genv (sctx (mctx s)) (mchan s) (log_host s) of
        Blocks \<Rightarrow> Blocks
      | Panics \<Rightarrow> Panics
      | Done u \<Rightarrow> map_res (\<lambda>e. (u, set_host (ghost u) (s\<lparr>mchan := gchan u, mev := e\<rparr>))) (notify_all (gnotes u) (mev s)))"

text \<open>
  \<open>vfkit.Run\<close> receives the readiness of the network in its selection, if it gets there. The shared directories are visited in
  an order of the map.
\<close>

definition vfkit_job :: "'v vzops \<Rightarrow> run_env \<Rightarrow> (string \<times> string) list \<Rightarrow> 'v \<Rightarrow> main_st \<Rightarrow> ('v run_out \<times> main_st) chan_res" where
  "vfkit_job ops renv dirs vm s =
     (let u = vfkit_Run ops renv dirs default_mounts (sctx (mctx s)) (log_host s) vm
      in if waiting u then Blocks
         else case (if RestfulServe \<in> set (gors u) \<and> e_select renv = GvReady
                    then map_res snd (ReceiveGVProxyReady (mchan s)) else Done (mchan s)) of
                Blocks \<Rightarrow> Blocks
              | Panics \<Rightarrow> Panics
              | Done c \<Rightarrow> map_res (\<lambda>e. (u, set_host (ohost u) (s\<lparr>mchan := c, mev := e\<rparr>))) (notify_all (onotes u) (mev s)))"

datatype main_job = ReadyJob | AgentClose | BindPid | GvproxyRun | VfkitRun | Signals | GvJob gv_gor | VfJob gor

definition main_jobs :: "main_job list" where
  "main_jobs = [ReadyJob, AgentClose, BindPid, GvproxyRun, VfkitRun, Signals]"

text \<open>
  Goroutines that wait for the context and then close something, and those that run an HTTP server, which always ends with an
  error.
\<close>

definition closers :: "main_job set" where
  "closers = {AgentClose, GvJob EndpointClose, GvJob GatewayClose, VfJob RestfulClose, VfJob TimeSyncClose}"

definition servers :: "main_job set" where
  "servers = {GvJob EndpointServe, VfJob RestfulServe} \<union> range (\<lambda>ss. GvJob (GatewayServe ss))"

section \<open>The group\<close>

text \<open>The process with the group of \<open>main\<close>: the goroutines that have not returned, and the virtual machine.\<close>

record 'v proc =
  gst :: main_st
  ggroup :: group
  gjobs :: "main_job multiset"
  gvm :: 'v

definition group_started :: "main_st \<Rightarrow> 'v \<Rightarrow> 'v proc" where
  "group_started s vm = \<lparr>gst = s, ggroup = (group_Go ^^ length main_jobs) WithContext, gjobs = mset main_jobs, gvm = vm\<rparr>"

text \<open>The context of the group is done.\<close>

definition cancelled :: "'v proc \<Rightarrow> bool" where
  "cancelled p = (ctx_cause (ggroup p) \<noteq> None)"

text \<open>A goroutine returns, after it has registered others.\<close>

definition returned :: "main_job \<Rightarrow> goerr option \<Rightarrow> main_job list \<Rightarrow> 'v proc \<Rightarrow> 'v proc" where
  "returned j e new p =
     p\<lparr>gjobs := gjobs p - {#j#} + mset new, ggroup := group_return e ((group_Go ^^ length new) (ggroup p))\<rparr>"

definition set_chan :: "channels \<Rightarrow> 'v proc \<Rightarrow> 'v proc" where
  "set_chan c p = p\<lparr>gst := (gst p)\<lparr>mchan := c\<rparr>\<rparr>"

abbreviation opt_of :: "'v proc \<Rightarrow> cctx" where
  "opt_of p \<equiv> sctx (mctx (gst p))"

text \<open>
  The steps. A goroutine that returns does its work in that step, with the answers of the calls outside the code; those
  that react to events while they run have a step for each event.
\<close>

inductive main_step :: "'v vzops \<Rightarrow> client \<Rightarrow> string \<Rightarrow> logctx \<Rightarrow> 'v proc \<Rightarrow> 'v proc \<Rightarrow> bool"
  for ops client now log where
  ready: "ReadyJob \<in># gjobs p \<Longrightarrow> ready_job accept line (gst p) = Done (e, t) \<Longrightarrow>
    main_step ops client now log p (returned ReadyJob e [] (p\<lparr>gst := t\<rparr>))"
| bind_pid: "BindPid \<in># gjobs p \<Longrightarrow> waitBindPID (cancelled p) ctx_err kill (BindPID (opt_of p)) = Some (ms, n) \<Longrightarrow> (ctx_err n \<Longrightarrow> cancelled p) \<Longrightarrow>
    main_step ops client now log p (returned BindPid (Some (Msg (''bind pid '' @ strconv_Itoa (BindPID (opt_of p)) @ '' is not alive''))) []
      (p\<lparr>gst := fold (main_Info now log) ms (gst p)\<rparr>))"
| signal_Notify: "Signals \<in># gjobs p \<Longrightarrow> main_step ops client now log p (p\<lparr>gst := (gst p)\<lparr>mnotified := True\<rparr>\<rparr>)"
| signal_arrives: "mnotified (gst p) \<Longrightarrow> os_signal sig (gst p) = Done t \<Longrightarrow> main_step ops client now log p (p\<lparr>gst := t\<rparr>)"
| signal: "Signals \<in># gjobs p \<Longrightarrow> mnotified (gst p) \<Longrightarrow> chan_recv (msigs (gst p)) = Done (Some sig, c) \<Longrightarrow>
    main_step ops client now log p (returned Signals (Some (Msg (''signal caught, received '' @ sig @ '' signal''))) []
      (p\<lparr>gst := (gst p)\<lparr>msigs := c\<rparr>\<rparr>))"
| no_signal: "Signals \<in># gjobs p \<Longrightarrow> cancelled p \<Longrightarrow>
    main_step ops client now log p (returned Signals None [] (p\<lparr>gst := (gst p)\<lparr>mnotified := True\<rparr>\<rparr>))"
| closer: "j \<in># gjobs p \<Longrightarrow> j \<in> closers \<Longrightarrow> cancelled p \<Longrightarrow> main_step ops client now log p (returned j e [] p)"
| server: "j \<in># gjobs p \<Longrightarrow> j \<in> servers \<Longrightarrow> main_step ops client now log p (returned j (Some x) [] p)"
| gvproxy: "GvproxyRun \<in># gjobs p \<Longrightarrow> gvproxy_job genv (gst p) = Done (u, t) \<Longrightarrow>
    main_step ops client now log p (returned GvproxyRun (gret u) (map GvJob (ggors u)) (p\<lparr>gst := t\<rparr>))"
| forward_skipped: "GvJob SshForward \<in># gjobs p \<Longrightarrow> cancelled p \<Longrightarrow>
    forward_goroutine True create rounds (opt_of p) (log_host (gst p)) = Some (e, h, l) \<Longrightarrow>
    main_step ops client now log p (returned (GvJob SshForward) e [] (p\<lparr>gst := set_host h (gst p)\<rparr>))"
| forward: "GvJob SshForward \<in># gjobs p \<Longrightarrow> ReceiveVMReady (mchan (gst p)) = Done (b, c) \<Longrightarrow> (list_ex fst rounds \<Longrightarrow> cancelled p) \<Longrightarrow>
    forward_goroutine False create rounds (opt_of p) (log_host (gst p)) = Some (e, h, l) \<Longrightarrow>
    main_step ops client now log p (returned (GvJob SshForward) e [] (set_chan c (p\<lparr>gst := set_host h (gst p)\<rparr>)))"
| vfkit: "VfkitRun \<in># gjobs p \<Longrightarrow> distinct (map fst dirs) \<Longrightarrow> map_of dirs = ExtendShareDir (opt_of p) \<Longrightarrow>
    vfkit_job ops renv dirs (gvm p) (gst p) = Done (u, t) \<Longrightarrow>
    main_step ops client now log p (returned VfkitRun (ret u) (map VfJob (gors u)) (p\<lparr>gst := t, gvm := ovm u\<rparr>))"
| request: "VfJob RestfulServe \<in># gjobs p \<Longrightarrow> serve ops flusher r (restful_New (gvm p) (opt_of p)) = (resp, s) \<Longrightarrow>
    main_step ops client now log p (p\<lparr>gst := set_opt (ropt s) (gst p), gvm := rvm s\<rparr>)"
| sync_accepted: "VfJob TimeSyncAccept \<in># gjobs p \<Longrightarrow>
    main_step ops client now log p (returned (VfJob TimeSyncAccept) (map_option (Wrap ''accept time sync socket file error: '') x) [] p)"
| sync_event: "VfJob TimeSyncEvents \<in># gjobs p \<Longrightarrow> ReceiveSyncTime (mchan (gst p)) = Done (b, c) \<Longrightarrow>
    sync_round wr time tc = Some (None, tc') \<Longrightarrow> main_step ops client now log p (set_chan c p)"
| sync_failed: "VfJob TimeSyncEvents \<in># gjobs p \<Longrightarrow> ReceiveSyncTime (mchan (gst p)) = Done (b, c) \<Longrightarrow>
    sync_round wr time tc = Some (Some x, tc') \<Longrightarrow> main_step ops client now log p (returned (VfJob TimeSyncEvents) (Some x) [] (set_chan c p))"
| sync_done: "VfJob TimeSyncEvents \<in># gjobs p \<Longrightarrow> cancelled p \<Longrightarrow>
    main_step ops client now log p (returned (VfJob TimeSyncEvents) None [] p)"
| power_stop: "VfJob PowerStop \<in># gjobs p \<Longrightarrow> cancelled p \<Longrightarrow> main_step ops client now log p (returned (VfJob PowerStop) None [] p)"
| power_event: "VfJob PowerEvents \<in># gjobs p \<Longrightarrow> VfJob PowerStop \<in># gjobs p \<Longrightarrow>
    on_activity ops a \<lparr>pvm = gvm p, save = PowerSaveMode (opt_of p), pchan = mchan (gst p), plog = []\<rparr> = Done w \<Longrightarrow>
    main_step ops client now log p (set_chan (pchan w) (p\<lparr>gvm := pvm w\<rparr>))"
| power_end: "VfJob PowerEvents \<in># gjobs p \<Longrightarrow> VfJob PowerStop \<notin># gjobs p \<Longrightarrow>
    main_step ops client now log p (returned (VfJob PowerEvents) None [] p)"
| vm_resuming: "VfJob StateListener \<in># gjobs p \<Longrightarrow> NotifySyncTime (mchan (gst p)) = Done c \<Longrightarrow> main_step ops client now log p (set_chan c p)"
| listener_end: "VfJob StateListener \<in># gjobs p \<Longrightarrow> main_step ops client now log p (returned (VfJob StateListener) None [] p)"
| ignited: "VfJob (IgnitionConn cmd) \<in># gjobs p \<Longrightarrow> ignition_goroutine accept wres cl cmd = (e, l, tx, notif) \<Longrightarrow>
    notify_all (if notif then [''IgnitionDone''] else []) (mev (gst p)) = Done ev \<Longrightarrow>
    main_step ops client now log p (returned (VfJob (IgnitionConn cmd)) e [] (p\<lparr>gst := (gst p)\<lparr>mev := ev\<rparr>\<rparr>))"
| vsocks: "VfJob Vsocks \<in># gjobs p \<Longrightarrow> vsocks_job devices listen vmC = (e, rs, l) \<Longrightarrow> (e = None \<Longrightarrow> cancelled p) \<Longrightarrow>
    main_step ops client now log p (returned (VfJob Vsocks) e [] p)"
| vm_stopped: "VfJob WaitStopped \<in># gjobs p \<Longrightarrow> wait_stopped_job ins = Some (x, l) \<Longrightarrow>
    main_step ops client now log p (returned (VfJob WaitStopped) (Some x) [] p)"
| stop_vm: "VfJob StopOnDone \<in># gjobs p \<Longrightarrow> cancelled p \<Longrightarrow> stop_job ops tick expired (gvm p) = Some (e, vm, l) \<Longrightarrow>
    main_step ops client now log p (returned (VfJob StopOnDone) e [] (p\<lparr>gvm := vm\<rparr>))"
| vm_moves: "main_step ops client now log p (p\<lparr>gvm := vm\<rparr>)"
| event_goroutine: "mev (gst p) = Some ev \<Longrightarrow> event_step client ev ev' \<Longrightarrow> exiter ev' = NotCalled \<Longrightarrow>
    main_step ops client now log p (p\<lparr>gst := (gst p)\<lparr>mev := Some ev'\<rparr>\<rparr>)"

abbreviation group_reachable :: "'v vzops \<Rightarrow> client \<Rightarrow> string \<Rightarrow> logctx \<Rightarrow> 'v proc \<Rightarrow> 'v proc \<Rightarrow> bool" where
  "group_reachable ops client now log \<equiv> steps (main_step ops client now log)"

lemmas group_start = steps_start [of "main_step ops client now log"] for ops client now log
lemmas group_next = steps_next [of "main_step ops client now log"] for ops client now log

section \<open>What the goroutines keep\<close>

text \<open>Notifications leave the events in a state from which \<open>NotifyExit\<close> can start.\<close>

definition event_live :: "client \<Rightarrow> evstate option \<Rightarrow> bool" where
  "event_live client e = (\<forall>s. e = Some s \<longrightarrow> event_reachable client s \<and> exiter s = NotCalled)"

abbreviation st_live :: "client \<Rightarrow> main_st \<Rightarrow> bool" where
  "st_live client s \<equiv> event_live client (mev s) \<and> \<not> cclosed (msigs s) \<and> ccap (msigs s) = 1"

lemma event_live_None [simp]: "event_live client None"
  by (simp add: event_live_def)

lemma event_live_new [simp]: "event_live client (Some event_new)"
  by (simp add: event_live_def event_start) (simp add: event_new_def)

lemma live_open: "event_reachable client s \<Longrightarrow> exiter s = NotCalled \<Longrightarrow> \<not> iclosed (ech s)"
  by (drule event_inv_reachable) (simp add: event_inv_def)

lemma post_live:
  assumes "event_reachable client s" and "exiter s = NotCalled"
  obtains t where "post d s = Done t" "exiter t = NotCalled"
  using live_open [OF assms] assms(2) that by (simp add: post_def inf_send_def map_res_def)

lemma NotifyApp_live:
  assumes "event_live client e"
  shows "\<exists>e'. NotifyApp n e = Done e' \<and> event_live client e'"
proof (cases e)
  case (Some s)
  with assms have r: "event_reachable client s" "exiter s = NotCalled" by (simp_all add: event_live_def)
  from post_live [OF r] obtain t where "post \<lparr>dname = kApp, dmessage = n\<rparr> s = Done t" and x: "exiter t = NotCalled" .
  then have t: "NotifyApp n (Some s) = Done (Some t)" by (simp add: NotifyApp_def map_res_def)
  with event_next [OF r(1) notify_app [OF t]] x Some show ?thesis by (simp add: event_live_def)
qed (simp add: NotifyApp_def)

lemma NotifyError_live:
  assumes "event_live client e"
  shows "\<exists>e'. NotifyError err e = Done e' \<and> event_live client e'"
proof (cases e)
  case (Some s)
  with assms have r: "event_reachable client s" "exiter s = NotCalled" by (simp_all add: event_live_def)
  from post_live [OF r] obtain t where "post \<lparr>dname = kError, dmessage = err_text err\<rparr> s = Done t" and x: "exiter t = NotCalled" .
  then have t: "NotifyError err (Some s) = Done (Some t)" by (simp add: NotifyError_def map_res_def)
  with event_next [OF r(1) notify_error [OF t]] x Some show ?thesis by (simp add: event_live_def)
qed (simp add: NotifyError_def)

lemma notify_all_live: "event_live client e \<Longrightarrow> \<exists>e'. notify_all ns e = Done e' \<and> event_live client e'"
proof (induction ns arbitrary: e)
  case (Cons n ns)
  then obtain e1 where "NotifyApp n e = Done e1" "event_live client e1" using NotifyApp_live by blast
  with Cons.IH [of e1] show ?case by simp
qed simp

lemma notify_all_keeps: "event_live client e \<Longrightarrow> notify_all ns e = Done e' \<Longrightarrow> event_live client e'"
  by (drule notify_all_live [where ns = ns]) auto

text \<open>The channels while the goroutines of \<open>jobs\<close> run: a readiness that is still to be announced has not been.\<close>

definition chan_inv :: "main_job multiset \<Rightarrow> channels \<Rightarrow> bool" where
  "chan_inv jobs c =
     (\<not> cclosed (gvproxyReady c) \<and> \<not> cclosed (vmReady c) \<and> \<not> iclosed (syncTime c) \<and> ccap (gvproxyReady c) = 1 \<and> ccap (vmReady c) = 1 \<and>
      (ReadyJob \<in># jobs \<longrightarrow> cbuf (vmReady c) = []) \<and> (GvproxyRun \<in># jobs \<longrightarrow> cbuf (gvproxyReady c) = []))"

lemma chan_inv_mono: "chan_inv jobs c \<Longrightarrow> set_mset jobs' \<inter> {ReadyJob, GvproxyRun} \<subseteq> set_mset jobs \<Longrightarrow> chan_inv jobs' c"
  by (auto simp: chan_inv_def)

lemma NotifyVMReady_inv:
  assumes "chan_inv jobs c" and "ReadyJob \<in># jobs" and "ReadyJob \<notin># jobs'" and "set_mset jobs' \<subseteq> set_mset jobs"
  shows "\<exists>c'. NotifyVMReady c = Done c' \<and> chan_inv jobs' c'"
  using assms by (auto simp: chan_inv_def NotifyVMReady_def chan_send_def map_res_def)

lemma NotifySyncTime_inv: "chan_inv jobs c \<Longrightarrow> \<exists>c'. NotifySyncTime c = Done c' \<and> chan_inv jobs c'"
  by (auto simp: chan_inv_def NotifySyncTime_def inf_send_def inf_after_def map_res_def)

lemma receive_inv:
  assumes "chan_inv jobs c"
  shows "ReceiveVMReady c = Done (b, c') \<Longrightarrow> chan_inv jobs c'" "ReceiveGVProxyReady c = Done (b, c') \<Longrightarrow> chan_inv jobs c'"
    "ReceiveSyncTime c = Done (b, c') \<Longrightarrow> chan_inv jobs c'"
  using assms
  by (auto simp: chan_inv_def ReceiveVMReady_def ReceiveGVProxyReady_def ReceiveSyncTime_def chan_recv_def inf_recv_def inf_after_def map_res_def
      split: chan_res.splits list.splits if_splits)

lemma on_activity_inv: "chan_inv jobs (pchan s) \<Longrightarrow> on_activity ops a s = Done t \<Longrightarrow> chan_inv jobs (pchan t)"
  using NotifySyncTime_inv [of jobs "pchan s"]
  by (cases a) (auto simp: on_activity_def on_awake_def on_sleep_def p_log_def Let_def map_res_def
      split: if_splits prod.splits option.splits chan_res.splits)

lemma gvproxy_Run_inv:
  assumes "chan_inv jobs c" and "GvproxyRun \<in># jobs" and "GvproxyRun \<notin># jobs'" and "set_mset jobs' \<inter> {ReadyJob} \<subseteq> set_mset jobs"
  shows "\<exists>u. gvproxy_Run genv opt c h = Done u \<and> chan_inv jobs' (gchan u)"
proof -
  have keep: "chan_inv jobs' c" using assms by (auto simp: chan_inv_def)
  obtain c' where "NotifyGVProxyReady c = Done c'" "chan_inv jobs' c'"
    using assms by (auto simp: chan_inv_def NotifyGVProxyReady_def chan_send_def map_res_def)
  with keep show ?thesis
    by (auto simp: gvproxy_Run_def Let_def map_res_def split: sum.split prod.split option.split)
qed

section \<open>The invariant of the group\<close>

definition group_inv :: "client \<Rightarrow> 'v proc \<Rightarrow> bool" where
  "group_inv client p =
     (st_live client (gst p) \<and> chan_inv (gjobs p) (mchan (gst p)) \<and>
      count (gjobs p) ReadyJob \<le> 1 \<and> count (gjobs p) GvproxyRun \<le> 1 \<and>
      running (ggroup p) = size (gjobs p) \<and> has_cancel (ggroup p) \<and> (cancelled p \<longleftrightarrow> gerr (ggroup p) \<noteq> None) \<and>
      (gerr (ggroup p) = None \<longrightarrow> BindPid \<in># gjobs p \<and> Signals \<in># gjobs p))"

lemma group_Go_funpow [simp]: "(group_Go ^^ n) g = g\<lparr>running := running g + n\<rparr>"
  by (induction n) (simp_all add: group_Go_def)

lemma group_return_fields:
  "has_cancel (group_return e g) = has_cancel g"
  "has_cancel g \<Longrightarrow> (ctx_cause g = None \<longleftrightarrow> gerr g = None) \<Longrightarrow> (ctx_cause (group_return e g) = None \<longleftrightarrow> gerr (group_return e g) = None)"
  by (auto simp: group_return_def group_cancel_def Let_def split: option.split)

text \<open>A goroutine returns with the state \<open>t\<close> and the new goroutines \<open>new\<close>.\<close>

lemma returned_inv:
  assumes "group_inv client p" and "j \<in># gjobs p" and "st_live client (gst q)"
    and "chan_inv (gjobs p - {#j#} + mset new) (mchan (gst q))" and "gjobs q = gjobs p" and "ggroup q = ggroup p"
    and "ReadyJob \<notin> set new" and "GvproxyRun \<notin> set new" and "j \<in> {BindPid, Signals} \<Longrightarrow> e \<noteq> None \<or> gerr (ggroup p) \<noteq> None"
  shows "group_inv client (returned j e new q)"
proof -
  let ?jobs = "gjobs p - {#j#} + mset new" and ?g = "ggroup p\<lparr>running := running (ggroup p) + length new\<rparr>"
  have p: "count (gjobs p) ReadyJob \<le> 1" "count (gjobs p) GvproxyRun \<le> 1" "running (ggroup p) = size (gjobs p)"
    "has_cancel (ggroup p)" "ctx_cause (ggroup p) = None \<longleftrightarrow> gerr (ggroup p) = None" "gerr (ggroup p) = None \<Longrightarrow> BindPid \<in># gjobs p \<and> Signals \<in># gjobs p"
    using assms(1) by (auto simp: group_inv_def cancelled_def)
  have le: "count ?jobs i \<le> count (gjobs p) i" if "i \<notin> set new" for i
  proof -
    have z: "count (mset new) i = 0" using that by (simp add: count_mset_0_iff)
    show ?thesis unfolding count_union z count_diff by simp
  qed
  have c: "count ?jobs ReadyJob \<le> 1" "count ?jobs GvproxyRun \<le> 1"
    using le [OF assms(7)] le [OF assms(8)] p(1,2) by linarith+
  have r: "running (group_return e ?g) = size ?jobs" using p(3) assms(2) by (simp add: size_Diff_singleton_if)
  have x: "ctx_cause (group_return e ?g) = None \<longleftrightarrow> gerr (group_return e ?g) = None" "has_cancel (group_return e ?g)"
    using p(4,5) by (simp_all add: group_return_fields)
  have b: "BindPid \<in># ?jobs \<and> Signals \<in># ?jobs" if "gerr (group_return e ?g) = None"
    using that p(6) assms(9) by (auto simp: gerr_group_return_None in_diff_count)
  show ?thesis using assms(3,4) c r x b by (simp add: group_inv_def returned_def cancelled_def assms(5,6))
qed

text \<open>The usual case: nothing is announced and nothing registered.\<close>

lemma returned_inv_plain:
  assumes "group_inv client p" and "j \<in># gjobs p" and "st_live client (gst q)"
    and "chan_inv (gjobs p) (mchan (gst q))" and "gjobs q = gjobs p" and "ggroup q = ggroup p"
    and "j \<in> {BindPid, Signals} \<Longrightarrow> e \<noteq> None \<or> gerr (ggroup p) \<noteq> None"
  shows "group_inv client (returned j e [] q)"
proof (rule returned_inv [OF assms(1,2,3) _ assms(5,6)])
  show "chan_inv (gjobs p - {#j#} + mset []) (mchan (gst q))"
    by (rule chan_inv_mono [OF assms(4)]) (auto dest: in_diffD)
qed (use assms(7) in simp_all)

lemma group_inv_parts:
  assumes "group_inv client p"
  shows "st_live client (gst p)" "chan_inv (gjobs p) (mchan (gst p))"
  using assms by (simp_all add: group_inv_def)

lemma group_inv_state:
  "group_inv client p \<Longrightarrow> st_live client (gst q) \<Longrightarrow> chan_inv (gjobs p) (mchan (gst q)) \<Longrightarrow> gjobs q = gjobs p \<Longrightarrow> ggroup q = ggroup p \<Longrightarrow>
   group_inv client q"
  by (simp add: group_inv_def cancelled_def)

lemma host_fields [simp]:
  "mev (set_host h s) = mev s" "mchan (set_host h s) = mchan s" "mlock (set_host h s) = mlock s"
  "mev (set_opt x s) = mev s" "mchan (set_opt x s) = mchan s" "msigs (set_host h s) = msigs s" "msigs (set_opt x s) = msigs s"
  by (simp_all add: set_host_def set_opt_def)

lemma info_fields [simp]:
  "mev (fold (main_Info now log) ms s) = mev s" "mchan (fold (main_Info now log) ms s) = mchan s" "msigs (fold (main_Info now log) ms s) = msigs s"
  by (induction ms arbitrary: s) (simp_all add: main_Info_def)

lemma set_chan_fields [simp]:
  "mev (gst (set_chan c p)) = mev (gst p)" "mchan (gst (set_chan c p)) = c" "msigs (gst (set_chan c p)) = msigs (gst p)" "gjobs (set_chan c p) = gjobs p" "ggroup (set_chan c p) = ggroup p"
  by (simp_all add: set_chan_def)

lemma count_one: "count M j = 1 \<Longrightarrow> j \<in># M" "count M j = 1 \<Longrightarrow> j \<notin># M - {#j#}" "set_mset (M - {#j#}) \<subseteq> set_mset M"
  by (metis count_greater_zero_iff zero_less_one) (auto simp: not_in_iff dest: in_diffD)

lemma ready_job_inv:
  assumes "st_live client s" and "chan_inv jobs (mchan s)" and "count jobs ReadyJob = 1"
  shows "\<exists>e t. ready_job accept line s = Done (e, t) \<and> st_live client t \<and> chan_inv (jobs - {#ReadyJob#}) (mchan t)"
proof -
  from NotifyVMReady_inv [OF assms(2) count_one(1,2) [OF assms(3)] count_one(3)] obtain c where
    c: "NotifyVMReady (mchan s) = Done c" "chan_inv (jobs - {#ReadyJob#}) c" by blast
  obtain ev where "NotifyApp ''Ready'' (mev s) = Done ev" "event_live client ev" using NotifyApp_live [OF conjunct1 [OF assms(1)]] by blast
  moreover have "chan_inv (jobs - {#ReadyJob#}) (mchan s)" by (rule chan_inv_mono [OF assms(2)]) (auto dest: in_diffD)
  ultimately show ?thesis using assms(1) c by (auto simp: ready_job_def map_res_def split: option.split)
qed

lemma gvproxy_job_inv:
  assumes "st_live client s" and "chan_inv jobs (mchan s)" and "count jobs GvproxyRun = 1"
  shows "\<exists>u t. gvproxy_job genv s = Done (u, t) \<and> st_live client t \<and>
    chan_inv (jobs - {#GvproxyRun#} + mset (map GvJob (ggors u))) (mchan t)"
proof -
  have "set_mset (jobs - {#GvproxyRun#}) \<inter> {ReadyJob} \<subseteq> set_mset jobs" by (rule order_trans [OF Int_lower1 count_one(3)])
  from gvproxy_Run_inv [OF assms(2) count_one(1,2) [OF assms(3)] this] obtain u where
    u: "gvproxy_Run genv (sctx (mctx s)) (mchan s) (log_host s) = Done u" "chan_inv (jobs - {#GvproxyRun#}) (gchan u)" by blast
  obtain ev where ev: "notify_all (gnotes u) (mev s) = Done ev" "event_live client ev" using notify_all_live [OF conjunct1 [OF assms(1)]] by blast
  have "chan_inv (jobs - {#GvproxyRun#} + mset (map GvJob (ggors u))) (gchan u)" by (rule chan_inv_mono [OF u(2)]) auto
  with u ev assms(1) show ?thesis by (simp add: gvproxy_job_def map_res_def)
qed

lemma vfkit_job_inv:
  assumes "st_live client s" and "chan_inv jobs (mchan s)" and "vfkit_job ops renv dirs vm s = Done (u, t)"
  shows "st_live client t \<and> chan_inv jobs (mchan t)"
proof -
  obtain ev where "notify_all (onotes (vfkit_Run ops renv dirs default_mounts (sctx (mctx s)) (log_host s) vm)) (mev s) = Done ev" "event_live client ev"
    using notify_all_live [OF conjunct1 [OF assms(1)]] by blast
  with assms receive_inv(2) [OF assms(2)] show ?thesis
    by (auto simp: vfkit_job_def map_res_def Let_def split: if_splits chan_res.splits prod.splits)
qed

lemma in_count_one: "group_inv client p \<Longrightarrow> j \<in># gjobs p \<Longrightarrow> j = ReadyJob \<or> j = GvproxyRun \<Longrightarrow> count (gjobs p) j = 1"
  by (metis One_nat_def count_greater_zero_iff group_inv_def le_antisym less_eq_Suc_le)

lemma main_step_inv: "main_step ops client now log p q \<Longrightarrow> group_inv client p \<Longrightarrow> group_inv client q"
proof (induction rule: main_step.induct)
  case (ready p accept line e t)
  note i = group_inv_parts [OF ready(3)] in_count_one [OF ready(3,1)]
  show ?case using ready_job_inv [OF i(1,2), of accept line] i(3) ready(1,2)
    by (intro returned_inv [OF ready(3,1)]) auto
next
  case (gvproxy p genv u t)
  note i = group_inv_parts [OF gvproxy(3)] in_count_one [OF gvproxy(3,1)]
  show ?case using gvproxy_job_inv [OF i(1,2), of genv] i(3) gvproxy(1,2)
    by (intro returned_inv [OF gvproxy(3,1)]) auto
next
  case (vfkit p dirs renv u t)
  note i = vfkit_job_inv [OF group_inv_parts [OF vfkit(5)] vfkit(4)]
  have "chan_inv (gjobs p - {#VfkitRun#} + mset (map VfJob (gors u))) (mchan t)"
    by (rule chan_inv_mono [of "gjobs p"]) (use i in \<open>auto dest: in_diffD\<close>)
  then show ?case using i by (intro returned_inv [OF vfkit(5,1)]) auto
next
  case (ignited cmd p accept wres cl e l tx notif ev)
  show ?case using notify_all_keeps [OF conjunct1 [OF group_inv_parts(1) [OF ignited(4)]] ignited(3)] group_inv_parts [OF ignited(4)]
    by (intro returned_inv_plain [OF ignited(4,1)]) simp_all
next
  case (power_event p a w)
  then show ?case using group_inv_parts [OF power_event(4)] on_activity_inv [OF _ power_event(3)]
    by (intro group_inv_state [OF power_event(4)]) simp_all
next
  case (vm_resuming p c)
  then show ?case using group_inv_parts [OF vm_resuming(3)] NotifySyncTime_inv
    by (intro group_inv_state [OF vm_resuming(3)]) fastforce+
next
  case (event_goroutine p ev ev')
  then show ?case using group_inv_parts [OF event_goroutine(4)]
    by (intro group_inv_state [OF event_goroutine(4)]) (auto simp: event_live_def intro: event_next)
next
  case (request p flusher r resp s)
  show ?case by (rule group_inv_state [OF request(3)]) (use group_inv_parts [OF request(3)] in simp_all)
next
  case (sync_event p b c wr time tc tc')
  show ?case
    by (rule group_inv_state [OF sync_event(4)]) (use group_inv_parts [OF sync_event(4)] receive_inv(3) sync_event(2) in auto)
next
  case (signal_arrives p sig t)
  then show ?case using group_inv_parts [OF signal_arrives(3)]
    by (intro group_inv_state [OF signal_arrives(3)]) (auto simp: os_signal_def chan_send_def split: if_splits)
next
  case (signal p sig c)
  then show ?case using group_inv_parts [OF signal(4)]
    by (intro returned_inv_plain [OF signal(4,1)]) (auto simp: chan_recv_def split: list.splits if_splits)
next
  case (no_signal p)
  then have "gerr (ggroup p) \<noteq> None" by (simp add: group_inv_def)
  then show ?case using group_inv_parts [OF no_signal(3)] by (intro returned_inv_plain [OF no_signal(3,1)]) simp_all
next
  case (signal_Notify p)
  then show ?case using group_inv_parts [OF signal_Notify(2)] by (intro group_inv_state [OF signal_Notify(2)]) simp_all
next
  case (vm_moves p vm)
  show ?case by (rule group_inv_state [OF vm_moves]) (use group_inv_parts [OF vm_moves] in simp_all)
qed (auto simp: closers_def intro!: returned_inv_plain intro: receive_inv dest: group_inv_parts)

lemma group_started_inv:
  assumes "st_live client s" and "mchan s = channel_init"
  shows "group_inv client (group_started s vm)"
  using assms by (simp add: group_inv_def group_started_def main_jobs_def chan_inv_def channel_init_def chan_make_def NewChannel_def
      cancelled_def WithContext_def zero_group_def group_Go_def)

interpretation grouped: safe_steps "main_step ops client now log" "group_inv client" for ops client now log
  by unfold_locales (rule main_step_inv)

lemma group_reachable_inv:
  assumes "group_reachable ops client now log (group_started s vm) p" and "st_live client s" and "mchan s = channel_init"
  shows "group_inv client p"
  by (rule grouped.reached [OF assms(1) group_started_inv [OF assms(2,3)]])

section \<open>The goroutines do not get stuck\<close>

lemma cancelled_returned [simp]:
  "ggroup q = ggroup p \<Longrightarrow> cancelled p \<Longrightarrow> cancelled (returned j e new q)" "gjobs (returned j e new q) = gjobs q - {#j#} + mset new"
  by (auto simp: cancelled_def returned_def group_return_def group_cancel_def Let_def split: option.split)

text \<open>Goroutines that only wait for the context.\<close>

definition ctx_waiters :: "main_job set" where
  "ctx_waiters = closers \<union> {BindPid, Signals, VfJob TimeSyncEvents, VfJob PowerStop}"

lemma ctx_waiter_returns:
  assumes "j \<in># gjobs p" and "j \<in> ctx_waiters" and "cancelled p"
  shows "\<exists>e q. main_step ops client now log p (returned j e [] q) \<and> ggroup q = ggroup p \<and> gjobs q = gjobs p"
proof -
  have w: "\<exists>ms. waitBindPID True (\<lambda>_. True) kill pid = Some (ms, 0)" for kill pid
    by (auto simp: waitBindPID_def bind_loop.simps)
  consider "j \<in> closers" | "j = BindPid" | "j = Signals" | "j = VfJob TimeSyncEvents" | "j = VfJob PowerStop"
    using assms(2) by (auto simp: ctx_waiters_def)
  then show ?thesis
  proof cases
    case 1
    then show ?thesis using closer [OF assms(1) _ assms(3)] by blast
  next
    case 2
    obtain ms where m: "waitBindPID (cancelled p) (\<lambda>_. True) (\<lambda>_ _ _. None) (BindPID (opt_of p)) = Some (ms, 0)" using w assms(3) by auto
    then show ?thesis using bind_pid [OF assms(1) [unfolded 2] m assms(3)] 2 by fastforce
  next
    case 3
    then show ?thesis using no_signal [of p ops client now log] assms by fastforce
  next
    case 4
    then show ?thesis using sync_done assms by blast
  next
    case 5
    then show ?thesis using power_stop assms by blast
  qed
qed


section \<open>A run that ends\<close>

text \<open>
  The guest never connects, the network cannot be made and the machine cannot be configured.
\<close>

definition no_network :: gv_env where
  "no_network = \<lparr>g_resolv = Inr ([], None), g_new = (\<lambda>_. Some (Errno EADDRINUSE)), g_transport = (\<lambda>_. None), g_listen = (\<lambda>_. None)\<rparr>"

definition no_machine :: run_env where
  "no_machine = \<lparr>e_arch = Arm64, e_toVz = (\<lambda>_. Some (Msg ''invalid'')), e_newVM = None, e_listen_rest = None, e_select = CtxDone, e_listen_sync = None,
     e_listen_initrd = None, e_tz = Inr ''/x'', e_now = 0, e_running = []\<rparr>"

lemma no_network_job: "\<exists>u t. gvproxy_job no_network s = Done (u, t) \<and> ggors u = []"
  by (auto simp: gvproxy_job_def gvproxy_Run_def no_network_def map_res_def Let_def split: sum.split prod.split)

lemma no_machine_job: "\<exists>u t. vfkit_job ops no_machine dirs vm s = Done (u, t) \<and> gors u = []"
  by (auto simp: vfkit_job_def vfkit_Run_def no_machine_def map_res_def Let_def split: sum.split prod.split)

lemma ctx_waiters_end:
  assumes "group_reachable ops client now log p0 p" and "cancelled p" and "set_mset (gjobs p) \<subseteq> ctx_waiters"
  shows "\<exists>q. group_reachable ops client now log p0 q \<and> gjobs q = {#}"
  using assms
proof (induction "size (gjobs p)" arbitrary: p)
  case (Suc n)
  then obtain j where j: "j \<in># gjobs p" by (metis Zero_not_Suc multiset_nonemptyE size_empty)
  then obtain e q where q: "main_step ops client now log p (returned j e [] q)" "ggroup q = ggroup p" "gjobs q = gjobs p"
    using ctx_waiter_returns [OF j _ Suc.prems(2)] Suc.prems(3) by blast
  show ?case
  proof (rule Suc.hyps(1))
    show "n = size (gjobs (returned j e [] q))" using Suc.hyps(2) j q(3) by (simp add: size_Diff_singleton)
    show "set_mset (gjobs (returned j e [] q)) \<subseteq> ctx_waiters" using Suc.prems(3) q(3) by (auto dest: in_diffD)
  qed (use group_next [OF Suc.prems(1) q(1)] q(2) Suc.prems(2) in simp_all)
qed auto

text \<open>A group whose guest never connects.\<close>

definition demo_group_st :: main_st where
  "demo_group_st = \<lparr>mctx = demo_setup, mmanaged = [], mlock = None, mev = None, mchan = channel_init, msigs = chan_make 1, mnotified = False, mout = []\<rparr>"

definition demo_log :: logctx where
  "demo_log = \<lparr>lpath = ''/l'', lname = ''vm-ovm'', lfile = 0\<rparr>"

definition demo_proc :: "vmstate proc" where
  "demo_proc = returned ReadyJob (Some (Msg ''ready accept timeout: '')) [] (group_started demo_group_st Stopped)"

lemma demo_proc_reachable: "group_reachable prompt_vz ok_client ''now'' demo_log (group_started demo_group_st Stopped) demo_proc"
proof -
  have "main_step prompt_vz ok_client ''now'' demo_log (group_started demo_group_st Stopped)
     (returned ReadyJob (Some (Msg ''ready accept timeout: '')) [] ((group_started demo_group_st Stopped)\<lparr>gst := demo_group_st\<rparr>))"
    by (rule ready [where accept = "Some (Msg [])" and line = None]) (simp_all add: group_started_def main_jobs_def ready_job_def)
  then show ?thesis using group_next [OF group_start] by (simp add: demo_proc_def group_started_def)
qed

lemma demo_proc_fields:
  "gjobs demo_proc = {#AgentClose, BindPid, GvproxyRun, VfkitRun, Signals#}" "gerr (ggroup demo_proc) \<noteq> None"
  by (simp_all add: demo_proc_def returned_def group_started_def main_jobs_def gerr_group_return WithContext_def zero_group_def group_Go_def)


end
