(* ===== verification/Ovm_Main.thy ===== *)
theory Ovm_Main
  imports Ovm_Group
begin

text \<open>
  The program (src/cmd/ovm/main.go): from the flags to the exit. The steps before the goroutines are those of the other
  theories, in the order of the code; the goroutines are those of Ovm\_Group, and the end of \<open>main\<close> follows when all have returned.
\<close>

definition say :: "string \<Rightarrow> main_st \<Rightarrow> main_st" where
  "say m s = s\<lparr>mout := mout s @ [m]\<rparr>"

section \<open>exit\<close>

text \<open>
  \<open>NotifyExit\<close> as a whole: the event is posted, and the goroutine of the events runs until the caller has gone on. The rounds are
  those of the queued events and two more.
\<close>

definition NotifyExit :: "client \<Rightarrow> evstate option \<Rightarrow> evstate option chan_res" where
  "NotifyExit client e =
     (case e of
        None \<Rightarrow> Done None
      | Some s \<Rightarrow> map_res (\<lambda>t. Some ((sender_round client ^^ (length (ibuf (ech t)) + 2)) t)) (NotifyExit_send s))"

definition run_cleans :: "main_st \<Rightarrow> main_st" where
  "run_cleans s =
     (case mlock s of
        None \<Rightarrow> s
      | Some l \<Rightarrow> s\<lparr>mctx := (mctx s)\<lparr>shost := Unlock l (shost (mctx s))\<rparr>\<rparr>)"

text \<open>\<open>close(sigs)\<close>.\<close>

definition close_sigs :: "main_st \<Rightarrow> main_st chan_res" where
  "close_sigs s = map_res (\<lambda>c. s\<lparr>msigs := c\<rparr>) (chan_close (msigs s))"

text \<open>The result is the exit code and the state the process leaves.\<close>

definition ovm_exit :: "client \<Rightarrow> int \<Rightarrow> main_st \<Rightarrow> (int \<times> main_st) chan_res" where
  "ovm_exit client code s =
     (case NotifyExit client (mev s) of
        Blocks \<Rightarrow> Blocks
      | Panics \<Rightarrow> Panics
      | Done e \<Rightarrow>
          (case close_sigs (run_cleans (s\<lparr>mev := e\<rparr>)) of
             Blocks \<Rightarrow> Blocks
           | Panics \<Rightarrow> Panics
           | Done s1 \<Rightarrow>
               map_res (\<lambda>c. (code, snd (with_logs (\<lambda>h. ((), logger_CloseAll h)) (s1\<lparr>mchan := c\<rparr>)))) (channel_Close (mchan s1))))"

section \<open>The end of main\<close>

text \<open>\<open>Blocks\<close> while a goroutine of the group has not returned.\<close>

definition main_end :: "client \<Rightarrow> string \<Rightarrow> logctx \<Rightarrow> 'v proc \<Rightarrow> (int \<times> main_st) chan_res" where
  "main_end client now log p =
     (case group_Wait (ggroup p) of
        None \<Rightarrow> Blocks
      | Some (Some e, g) \<Rightarrow>
          (case main_Errorf now log (''main error: '' @ err_text e @ '', reason: '' @
                  (case ctx_cause g of None \<Rightarrow> ''<nil>'' | Some c \<Rightarrow> err_text c)) (gst p) of
             (err, s) \<Rightarrow>
               (case NotifyError err (mev s) of
                  Blocks \<Rightarrow> Blocks
                | Panics \<Rightarrow> Panics
                | Done ev \<Rightarrow> ovm_exit client 1 (s\<lparr>mev := ev\<rparr>)))
      | Some (None, g) \<Rightarrow> ovm_exit client 0 (main_Info now log ''main exit'' (gst p)))"

section \<open>main\<close>

text \<open>What the calls outside the modelled code yield, and the orders the scheduler chooses.\<close>

record main_env =
  m_flags :: flags
  m_setup :: setup_env
  m_basic_first :: bool
  m_order :: "setup_step list"
  m_proc :: proc_env
  m_now :: string
  m_client :: client
  m_agent_new :: "goerr option"
  m_agent_add :: "goerr option"
  m_agent :: agent_env
  m_listen :: "errno option"

text \<open>\<open>main\<close> has exited, or it waits for its goroutines.\<close>

datatype main_out = Exited "(int \<times> main_st) chan_res" | Started logctx main_st

text \<open>The lines a package has logged.\<close>

definition main_lines :: "string \<Rightarrow> logctx \<Rightarrow> (string \<times> string) list \<Rightarrow> main_st \<Rightarrow> main_st" where
  "main_lines now log ls s = fold (\<lambda>(t, m) s. set_host (log_base log now t m (log_host s)) s) ls s"

definition main_run :: "main_env \<Rightarrow> logctx \<Rightarrow> main_st \<Rightarrow> main_out" where
  "main_run env log s =
     (let exit1 = (\<lambda>m t. Exited (ovm_exit (m_client env) 1 (snd (main_Errorf (m_now env) log m t))))
      in case cli_Setup (m_setup env) (m_flags env) (m_order env) (mctx s) of
           (Some e, st) \<Rightarrow> exit1 (''setup error: '' @ err_text e) (s\<lparr>mctx := st\<rparr>)
         | (None, st) \<Rightarrow>
             (let opt = sctx st
              in case with_logs (event_Setup (m_now env) (LogPath opt) (Name opt) (EventSocketPath opt)) (s\<lparr>mctx := st\<rparr>) of
                   ((Some e, _), s1) \<Rightarrow> exit1 (''event init error: '' @ err_text e) s1
                 | ((None, ev), s1) \<Rightarrow>
                     (case agent_Start (m_agent_new env) (m_agent_add env) (m_agent env) (log_host s1) of
                        (agent, ls) \<Rightarrow>
                          (let s2 = main_lines (m_now env) log ls (s1\<lparr>mev := ev\<rparr>)
                           in case agent of
                                Inl e \<Rightarrow> exit1 (''start ssh agent sock error: '' @ err_text e) s2
                              | Inr _ \<Rightarrow>
                                  (case NotifyApp ''Initializing'' (mev s2) of
                                     Blocks \<Rightarrow> Exited Blocks
                                   | Panics \<Rightarrow> Exited Panics
                                   | Done ev1 \<Rightarrow>
                                       (case m_listen env of
                                          Some e \<Rightarrow> exit1 (''create ready socket error: '' @ err_text (Errno e)) (s2\<lparr>mev := ev1\<rparr>)
                                        | None \<Rightarrow> Started log (s2\<lparr>mev := ev1\<rparr>)))))))"

definition ovm_main :: "main_env \<Rightarrow> main_st \<Rightarrow> main_out" where
  "ovm_main env s =
     (let exit1 = (\<lambda>m t. Exited (ovm_exit (m_client env) 1 (say m t)))
      in case Validate (m_flags env) of
           Some e \<Rightarrow> exit1 (''validate flags error: '' @ err_text e) s
         | None \<Rightarrow>
             (case PreSetup (m_setup env) (m_flags env) (m_basic_first env) ((mctx s)\<lparr>sctx := cli_Init\<rparr>) of
                (Some e, st) \<Rightarrow> exit1 (''pre setup error: '' @ err_text e) (s\<lparr>mctx := st\<rparr>)
              | (None, st) \<Rightarrow>
                  (case makeSingleInstance (m_proc env) (LogPath (sctx st)) (LockFile (sctx st)) (ExecutablePath (sctx st)) \<lparr>ihost = shost st, sent = []\<rparr> of
                     (Panic, _) \<Rightarrow> Exited Panics
                   | (Ret (_, Some e), i) \<Rightarrow> exit1 (''make single instance error: '' @ err_text e) (s\<lparr>mctx := st\<lparr>shost := ihost i\<rparr>\<rparr>)
                   | (Ret (l, None), i) \<Rightarrow>
                       (case with_logs (logger_New (LogPath (sctx st)) (Name (sctx st) @ ''-ovm'')) (s\<lparr>mctx := st\<lparr>shost := ihost i\<rparr>, mlock := l\<rparr>) of
                          (Inl e, s1) \<Rightarrow> exit1 (''create ovm logger error: '' @ err_text e) s1
                        | (Inr log, s1) \<Rightarrow> main_run env log s1))))"

text \<open>The program with its arguments. The package \<open>flag\<close> ends the process itself, with its message printed.\<close>

definition ovm_program :: "string list \<Rightarrow> main_env \<Rightarrow> main_st \<Rightarrow> main_out" where
  "ovm_program args env s =
     (case cli_Parse args of
        FlagExit code m \<Rightarrow> Exited (Done (code, say m s))
      | Parsed fl rest \<Rightarrow> ovm_main (env\<lparr>m_flags := fl\<rparr>) s)"

section \<open>The end of the process\<close>

lemma chan_make_fields [simp]: "\<not> cclosed (chan_make n)" "ccap (chan_make n) = n"
  by (simp_all add: chan_make_def)

lemma sender_round_ended: "event_inv s \<Longrightarrow> exiter s = ExitDone \<Longrightarrow> sender_round client s = s"
  by (auto simp: sender_round_def event_inv_def split: sender_pc.splits)

lemma rounds_ended: "event_inv s \<Longrightarrow> exiter s = ExitDone \<Longrightarrow> (sender_round client ^^ n) s = s"
  by (induction n) (simp_all add: sender_round_ended)

lemma NotifyExit_ends:
  assumes "event_live client (Some s)"
  shows "\<exists>t. NotifyExit client (Some s) = Done (Some t) \<and> exiter t = ExitDone \<and>
     posted t = posted s @ [exit_datum] \<and> requests t = map event_uri (posted s @ [exit_datum])"
proof -
  have r: "event_reachable client s" "exiter s = NotCalled" using assms by (simp_all add: event_live_def)
  obtain u where u: "NotifyExit_send s = Done u" "exiter u = Waiting" "posted u = posted s @ [exit_datum]"
    using live_open [OF r] by (auto simp: NotifyExit_send_def post_def inf_send_def map_res_def)
  have ru: "event_reachable client u" by (rule event_next [OF r(1) notify_exit [OF r(2) u(1)]])
  obtain k where k: "k \<le> length (ibuf (ech u)) + 2" "exiter ((sender_round client ^^ k) u) = ExitDone" "posted ((sender_round client ^^ k) u) = posted u"
    using exit_returns [OF ru u(2)] by blast
  let ?t = "(sender_round client ^^ k) u"
  have rt: "event_reachable client ?t" by (rule rounds_reachable [OF ru])
  have "(sender_round client ^^ (length (ibuf (ech u)) + 2)) u = (sender_round client ^^ (length (ibuf (ech u)) + 2 - k)) ?t"
    using k(1) by (metis funpow_add le_add_diff_inverse2 o_apply)
  then have e: "NotifyExit client (Some s) = Done (Some ?t)"
    using u(1) rounds_ended [OF event_inv_reachable [OF rt] k(2)] by (simp add: NotifyExit_def map_res_def)
  obtain before late where b: "posted ?t = before @ exit_datum # late" "exits before = 0" "exits late = 0"
    "requests ?t = map event_uri (before @ [exit_datum])" using exit_last [OF rt k(2)] by blast
  have "late = []"
  proof (rule ccontr)
    assume "late \<noteq> []"
    then have "exit_datum \<in> set late" using b(1) k(3) u(3) by (metis append_is_Nil_conv last_appendR last_in_set last_snoc list.distinct(1) last_ConsR)
    then show False using b(3) by (auto simp: exits_def filter_empty_conv)
  qed
  then have "before = posted s" using b(1) k(3) u(3) by simp
  then show ?thesis using e b(4) k(2,3) u(3) by auto
qed

text \<open>Closing the logs.\<close>

lemma fd_Close_facts:
  "\<not> fd_open (fds (snd (fd_Close n h)) n)" "\<not> fd_open (fds h m) \<Longrightarrow> \<not> fd_open (fds (snd (fd_Close n h)) m)"
  "flocks h i \<noteq> Some fd \<Longrightarrow> flocks (snd (fd_Close n h)) i \<noteq> Some fd" "managed (snd (fd_Close n g)) = managed g"
  by (auto simp: fd_Close_def drop_locks_def Let_def)

lemma CloseAll_keeps:
  "\<not> fd_open (fds h m) \<Longrightarrow> \<not> fd_open (fds (foldl (\<lambda>h c. snd (fd_Close (lfile c) h)) h cs) m)"
  "flocks h i \<noteq> Some fd \<Longrightarrow> flocks (foldl (\<lambda>h c. snd (fd_Close (lfile c) h)) h cs) i \<noteq> Some fd"
  by (induction cs arbitrary: h) (auto simp: fd_Close_facts)

lemma CloseAll_closes:
  "c \<in> set cs \<Longrightarrow> \<not> fd_open (fds (foldl (\<lambda>h c. snd (fd_Close (lfile c) h)) h cs) (lfile c))"
proof (induction cs arbitrary: h)
  case (Cons d cs)
  show ?case
  proof (cases "c = d")
    case True
    then show ?thesis using CloseAll_keeps(1) [OF fd_Close_facts(1), of "lfile d" h cs] by simp
  next
    case False
    then show ?thesis using Cons by simp
  qed
qed simp

lemma managed_CloseAll: "managed (foldl (\<lambda>h c. snd (fd_Close (lfile c) h)) h cs) = managed h"
  by (induction cs arbitrary: h) (simp_all add: fd_Close_facts)

lemma Unlock_flocks: "fh l = Some fd \<Longrightarrow> flocks (Unlock l h) i \<noteq> Some fd"
  by (auto simp: Unlock_def flock_un_def fd_Close_def drop_locks_def os_RemoveAll_def Let_def split: option.splits)

text \<open>What holds when the process ends: the lock and the logs are given up, and the last request is that of the exit event.\<close>

definition process_ended :: "main_st \<Rightarrow> bool" where
  "process_ended s =
     ((case mlock s of None \<Rightarrow> True | Some l \<Rightarrow> (case fh l of None \<Rightarrow> True | Some fd \<Rightarrow> \<forall>i. flocks (shost (mctx s)) i \<noteq> Some fd)) \<and>
      (\<forall>c \<in> set (mmanaged s). \<not> fd_open (fds (shost (mctx s)) (lfile c))) \<and>
      (case mev s of None \<Rightarrow> True | Some e \<Rightarrow> exiter e = ExitDone \<and> (\<exists>ds. posted e = ds @ [exit_datum] \<and> requests e = map event_uri (ds @ [exit_datum]))))"

definition main_ok :: "client \<Rightarrow> main_st \<Rightarrow> bool" where
  "main_ok client s = (st_live client s \<and> \<not> cclosed (gvproxyReady (mchan s)) \<and> \<not> cclosed (vmReady (mchan s)))"

lemma truncate_fields [simp]:
  "fds (hostfs.truncate h) = fds h" "flocks (hostfs.truncate h) = flocks h"
  by (simp_all add: hostfs.truncate_def)

lemma extend_fields [simp]:
  "fds (hostfs.extend h x) = fds h" "flocks (hostfs.extend h x) = flocks h" "managed (hostfs.extend h \<lparr>managed = ms\<rparr>) = ms"
  by (simp_all add: hostfs.extend_def)

lemma ovm_exit_ends:
  assumes "main_ok client s"
  shows "\<exists>s'. ovm_exit client code s = Done (code, s') \<and> process_ended s'"
proof -
  obtain e where e: "NotifyExit client (mev s) = Done e"
    "case e of None \<Rightarrow> True | Some t \<Rightarrow> exiter t = ExitDone \<and> (\<exists>ds. posted t = ds @ [exit_datum] \<and> requests t = map event_uri (ds @ [exit_datum]))"
    using NotifyExit_ends assms by (cases "mev s") (fastforce simp: main_ok_def NotifyExit_def)+
  let ?s0 = "run_cleans (s\<lparr>mev := e\<rparr>)"
  let ?s1 = "?s0\<lparr>msigs := (msigs s)\<lparr>cclosed := True\<rparr>\<rparr>"
  have "msigs ?s0 = msigs s" by (simp add: run_cleans_def split: option.split)
  then have cl: "close_sigs ?s0 = Done ?s1" using assms by (simp add: close_sigs_def chan_close_def main_ok_def map_res_def)
  have f: "mchan ?s0 = mchan s" "mev ?s0 = e" "mlock ?s0 = mlock s" "mmanaged ?s0 = mmanaged s"
    by (simp_all add: run_cleans_def split: option.split)
  obtain c where c: "channel_Close (mchan ?s1) = Done c"
    using assms by (simp add: main_ok_def channel_Close_def chan_close_def f)
  let ?s' = "snd (with_logs (\<lambda>h. ((), logger_CloseAll h)) (?s1\<lparr>mchan := c\<rparr>))"
  have l: "flocks (shost (mctx ?s0)) i \<noteq> Some fd" if "mlock s = Some k" "fh k = Some fd" for k fd i
    using that Unlock_flocks by (simp add: run_cleans_def)
  have lk: "flocks (foldl (\<lambda>h c. snd (fd_Close (lfile c) h)) (hostfs.extend (shost (mctx ?s0)) \<lparr>managed = ms\<rparr>) cs) i \<noteq> Some fd"
    if "mlock s = Some k" "fh k = Some fd" for k fd i ms cs
    using l [OF that] by (intro CloseAll_keeps(2)) simp
  have "process_ended ?s'"
    using e(2)
    by (auto simp: process_ended_def with_logs_def log_host_def set_host_def logger_CloseAll_def f managed_CloseAll CloseAll_closes lk split: option.split)
  then show ?thesis using e(1) c cl by (simp add: ovm_exit_def map_res_def)
qed

text \<open>
  The channel of the signals is closed while the program is still registered for them, before the channels and the logs are closed: a
  signal that arrives then panics the process.
\<close>

lemma signal_during_exit:
  assumes "\<not> cclosed (msigs s)"
  shows "\<exists>t. close_sigs s = Done t \<and> mnotified t = mnotified s \<and> os_signal sig t = Panics"
  using assms by (simp add: close_sigs_def chan_close_def map_res_def os_signal_def chan_send_def)

section \<open>The whole program\<close>

definition ended_with :: "int \<Rightarrow> (int \<times> main_st) chan_res \<Rightarrow> bool" where
  "ended_with code r = (\<exists>s'. r = Done (code, s') \<and> process_ended s')"

lemma exit_ended [simp]: "main_ok client s \<Longrightarrow> ended_with code (ovm_exit client code s)"
  using ovm_exit_ends by (simp add: ended_with_def)

lemma with_logs_fields [simp]: "mev (snd (with_logs f s)) = mev s" "mchan (snd (with_logs f s)) = mchan s" "msigs (snd (with_logs f s)) = msigs s"
  by (simp_all add: with_logs_def split: prod.split)

lemma lines_fields [simp]: "mev (main_lines now log ls s) = mev s" "mchan (main_lines now log ls s) = mchan s" "msigs (main_lines now log ls s) = msigs s"
  by (induction ls arbitrary: s) (auto simp: main_lines_def)

lemma main_ok_simps [simp]:
  "main_ok client (snd (with_logs f s)) = main_ok client s" "main_ok client (say m s) = main_ok client s"
  "main_ok client (s\<lparr>mctx := x\<rparr>) = main_ok client s" "main_ok client (s\<lparr>mlock := l\<rparr>) = main_ok client s"
  "main_ok client (main_lines now log ls s) = main_ok client s" "main_ok client (snd (main_Errorf now log m s)) = main_ok client s"
  by (simp_all add: main_ok_def say_def main_Errorf_def)

lemma main_ok_ev: "main_ok client s \<Longrightarrow> event_live client e \<Longrightarrow> main_ok client (s\<lparr>mev := e\<rparr>)"
  by (simp add: main_ok_def)

lemma event_Setup_live: "event_Setup now p n sock h = ((None, ev), h') \<Longrightarrow> event_live client ev"
  by (auto simp: event_Setup_def split: prod.splits sum.splits if_splits)

text \<open>When all goroutines have returned the group has an error, and the program ends with it.\<close>

lemma main_end_ends:
  assumes "group_inv client p" and "gjobs p = {#}"
  shows "ended_with 1 (main_end client now log p)"
proof -
  obtain e where e: "gerr (ggroup p) = Some e" and r: "running (ggroup p) = 0" using assms by (auto simp: group_inv_def)
  let ?g = "group_cancel (Some e) (ggroup p)"
  let ?m = "''main error: '' @ err_text e @ '', reason: '' @ (case ctx_cause ?g of None \<Rightarrow> ''<nil>'' | Some c \<Rightarrow> err_text c)"
  have ok: "main_ok client (gst p)" using assms(1) by (simp add: group_inv_def chan_inv_def main_ok_def)
  obtain err s where l: "main_Errorf now log ?m (gst p) = (err, s)" by (rule prod.exhaust)
  then have s: "main_ok client s" using ok main_ok_simps(6) [of client now log ?m "gst p"] by simp
  obtain ev where ev: "NotifyError err (mev s) = Done ev" "event_live client ev"
    using NotifyError_live s by (metis main_ok_def)
  have "main_end client now log p = ovm_exit client 1 (s\<lparr>mev := ev\<rparr>)"
    using l ev(1) by (simp add: main_end_def group_Wait_def r e)
  then show ?thesis using main_ok_ev [OF s ev(2)] by simp
qed

text \<open>The map of the shared directories is finite, so its entries can be visited.\<close>

definition shares_ok :: "setup_st \<Rightarrow> bool" where
  "shares_ok st = finite (dom (ExtendShareDir (sctx st)))"

lemma share_dirs_finite: "finite (dom m) \<Longrightarrow> share_dirs items h m = (e, m') \<Longrightarrow> finite (dom m')"
  by (induction items h m rule: share_dirs.induct) (auto split: list.splits sum.splits if_splits)

lemma run_setup_shares: "shares_ok st \<Longrightarrow> shares_ok (snd (run_setup env fl j st))"
proof (cases j)
  case Basic
  assume "shares_ok st"
  then show ?thesis using Basic
    by (auto simp: shares_ok_def basic_def Let_def split: prod.splits option.split sum.split intro: share_dirs_finite [of Map.empty, simplified])
qed (auto simp: shares_ok_def setup_logPath_def setup_socketPath_def socket_ctx_def setup_ssh_def setup_sshPort_def setup_target_def target_ctx_def Let_def
    split: prod.split option.split sum.split outcome.split)

lemma setup_shares:
  "PreSetup env fl b st = (e, st') \<Longrightarrow> shares_ok st \<Longrightarrow> shares_ok st'" "cli_Setup env fl order st = (e, st') \<Longrightarrow> shares_ok st \<Longrightarrow> shares_ok st'"
  by (unfold PreSetup_def cli_Setup_def) (blast intro: group_run_keep [where Q = shares_ok] run_setup_shares)+

lemma shares_set_host [simp]: "shares_ok (mctx (set_host h s)) = shares_ok (mctx s)" "shares_ok (st\<lparr>shost := h1\<rparr>) = shares_ok st"
  by (simp_all add: shares_ok_def set_host_def)

lemma shares_with_logs [simp]: "shares_ok (mctx (snd (with_logs f s))) = shares_ok (mctx s)"
  by (simp add: with_logs_def split: prod.split)

lemma shares_lines [simp]: "shares_ok (mctx (main_lines now log ls s)) = shares_ok (mctx s)"
  by (induction ls arbitrary: s) (simp_all add: main_lines_def case_prod_beta)

text \<open>What the part before the goroutines leads to.\<close>

definition out_ok :: "client \<Rightarrow> main_out \<Rightarrow> bool" where
  "out_ok client r = (case r of Exited x \<Rightarrow> ended_with 1 x | Started log t \<Rightarrow> event_live client (mev t) \<and> mchan t = channel_init \<and> msigs t = chan_make 1 \<and> shares_ok (mctx t))"

lemma main_ok_init: "st_live client s \<Longrightarrow> mchan s = channel_init \<Longrightarrow> main_ok client s"
  by (simp add: main_ok_def channel_init_def chan_make_def)

lemma main_run_ok:
  assumes "mev s = None" and "mchan s = channel_init" and "shares_ok (mctx s)" and "msigs s = chan_make 1"
  shows "out_ok (m_client env) (main_run env log s)"
proof -
  let ?c = "m_client env"
  have ok: "main_ok ?c s" using assms by (intro main_ok_init) simp_all
  obtain e st where c: "cli_Setup (m_setup env) (m_flags env) (m_order env) (mctx s) = (e, st)" by (rule prod.exhaust)
  let ?f = "event_Setup (m_now env) (LogPath (sctx st)) (Name (sctx st)) (EventSocketPath (sctx st))"
  obtain e2 ev s1 where w: "with_logs ?f (s\<lparr>mctx := st\<rparr>) = ((e2, ev), s1)" by (metis surj_pair)
  have s1: "main_ok ?c s1" "mchan s1 = channel_init" "shares_ok (mctx s1)" "msigs s1 = chan_make 1"
    using main_ok_simps(1) [of ?c ?f "s\<lparr>mctx := st\<rparr>"] with_logs_fields(2) [of ?f "s\<lparr>mctx := st\<rparr>"] shares_with_logs [of ?f "s\<lparr>mctx := st\<rparr>"]
      setup_shares(2) [OF c assms(3)] with_logs_fields(3) [of ?f "s\<lparr>mctx := st\<rparr>"] w ok assms(2,4) by simp_all
  show ?thesis
  proof (cases "e = None \<and> e2 = None")
    case False
    then show ?thesis using c w ok s1 by (auto simp: main_run_def out_ok_def Let_def split: option.split)
  next
    case True
    then have lv: "event_live ?c ev" using w event_Setup_live by (fastforce simp: with_logs_def split: prod.splits)
    then obtain ev1 where n: "NotifyApp ''Initializing'' ev = Done ev1" "event_live ?c ev1" using NotifyApp_live by blast
    obtain a ls where a: "agent_Start (m_agent_new env) (m_agent_add env) (m_agent env) (log_host s1) = (a, ls)" by (rule prod.exhaust)
    let ?s2 = "main_lines (m_now env) log ls (s1\<lparr>mev := ev\<rparr>)"
    have "main_ok ?c ?s2" "main_ok ?c (?s2\<lparr>mev := ev1\<rparr>)" using s1(1) lv n(2) by (simp_all add: main_ok_ev)
    with True c w a n s1(2-4) show ?thesis by (auto simp: main_run_def out_ok_def Let_def split: sum.split option.split)
  qed
qed

text \<open>The single-instance check of a program panics.\<close>

definition check_panics :: "main_env \<Rightarrow> main_st \<Rightarrow> bool" where
  "check_panics env s =
     (case PreSetup (m_setup env) (m_flags env) (m_basic_first env) ((mctx s)\<lparr>sctx := cli_Init\<rparr>) of
        (e, st) \<Rightarrow> e = None \<and>
          fst (makeSingleInstance (m_proc env) (LogPath (sctx st)) (LockFile (sctx st)) (ExecutablePath (sctx st)) \<lparr>ihost = shost st, sent = []\<rparr>) = Panic)"

lemma ovm_main_ok:
  assumes "mev s = None" and "mchan s = channel_init" and "msigs s = chan_make 1"
  shows "out_ok (m_client env) (ovm_main env s) \<or> ovm_main env s = Exited Panics \<and> check_panics env s"
proof -
  let ?c = "m_client env"
  have ok: "main_ok ?c s" using assms by (intro main_ok_init) simp_all
  obtain e st where p: "PreSetup (m_setup env) (m_flags env) (m_basic_first env) ((mctx s)\<lparr>sctx := cli_Init\<rparr>) = (e, st)" by (rule prod.exhaust)
  obtain r i where m: "makeSingleInstance (m_proc env) (LogPath (sctx st)) (LockFile (sctx st)) (ExecutablePath (sctx st)) \<lparr>ihost = shost st, sent = []\<rparr> = (r, i)"
    by (rule prod.exhaust)
  have run: "out_ok ?c (case with_logs f t of (Inl x, s1) \<Rightarrow> Exited (ovm_exit ?c 1 (say (''create ovm logger error: '' @ err_text x) s1)) | (Inr log, s1) \<Rightarrow> main_run env log s1)"
    if "main_ok ?c t" "mev t = None" "mchan t = channel_init" "shares_ok (mctx t)" "msigs t = chan_make 1" for f t
  proof -
    obtain x s1 where w: "with_logs f t = (x, s1)" by (rule prod.exhaust)
    have "main_ok ?c s1" "mev s1 = None" "mchan s1 = channel_init" "shares_ok (mctx s1)" "msigs s1 = chan_make 1"
      using w that main_ok_simps(1) [of ?c f t] with_logs_fields [of f t] shares_with_logs [of f t] by simp_all
    then show ?thesis using main_run_ok [of s1 env] unfolding w by (auto simp: out_ok_def split: sum.split)
  qed
  have "shares_ok ((mctx s)\<lparr>sctx := cli_Init\<rparr>)" by (simp add: shares_ok_def cli_Init_def)
  then have "shares_ok st" using setup_shares(1) [OF p] by simp
  then show ?thesis
    using p m ok run assms by (auto simp: ovm_main_def check_panics_def out_ok_def Let_def split: option.split outcome.split prod.split)
qed

lemma flag_Parse_code: "flag_Parse formal put args st = FlagExit code m \<Longrightarrow> code \<in> {0, 2}"
proof (induction formal put args st rule: flag_Parse.induct)
  case (1 formal put args st)
  then show ?case by (subst (asm) flag_Parse.simps) (auto split: one_flag.splits)
qed

lemma ovm_main_outcome:
  assumes "mev s = None" and "mchan s = channel_init" and "msigs s = chan_make 1"
  shows "case ovm_main env s of
      Exited r \<Rightarrow> ended_with 1 r \<or> (r = Panics \<and> check_panics env s)
    | Started log t \<Rightarrow> \<forall>p. group_reachable ops (m_client env) (m_now env) log (group_started t vm) p \<longrightarrow> gjobs p = {#} \<longrightarrow>
        ended_with 1 (main_end (m_client env) (m_now env) log p)"
proof (cases "ovm_main env s")
  case (Started log t)
  then have t: "st_live (m_client env) t" "mchan t = channel_init" using ovm_main_ok [OF assms, of env] by (auto simp: out_ok_def)
  then show ?thesis unfolding Started by (auto intro!: main_end_ends [OF group_reachable_inv [OF _ t]])
qed (use ovm_main_ok [OF assms, of env] in \<open>auto simp: out_ok_def\<close>)


section \<open>A run of the program\<close>

lemma group_can_end:
  assumes "shares_ok (mctx t)"
  shows "\<exists>p. group_reachable ops client now log (group_started t vm) p \<and> gjobs p = {#}"
proof -
  let ?p0 = "group_started t vm" and ?m = "ExtendShareDir (sctx (mctx t))"
  obtain ks where k: "set ks = dom ?m" "distinct ks" using finite_distinct_list assms unfolding shares_ok_def by metis
  let ?dirs = "map (\<lambda>k. (k, the (?m k))) ks"
  have d: "distinct (map fst ?dirs)" "map_of ?dirs = ?m" using k by (simp_all add: map_of_map_keys comp_def)
  let ?p1 = "returned ReadyJob (Some (Msg ''ready accept timeout: '')) [] (?p0\<lparr>gst := t\<rparr>)"
  have 1: "main_step ops client now log ?p0 ?p1"
    by (rule ready [where accept = "Some (Msg [])" and line = None]) (simp_all add: group_started_def main_jobs_def ready_job_def)
  have p1: "gst ?p1 = t" "gjobs ?p1 = {#AgentClose, BindPid, GvproxyRun, VfkitRun, Signals#}" "cancelled ?p1"
    by (simp_all add: returned_def group_started_def main_jobs_def cancelled_def group_return_def group_cancel_def WithContext_def zero_group_def group_Go_def Let_def)
  obtain u v where u: "vfkit_job ops no_machine ?dirs (gvm ?p1) (gst ?p1) = Done (u, v)" "gors u = []" using no_machine_job [of ops ?dirs "gvm ?p1" "gst ?p1"] by blast
  let ?p2 = "returned VfkitRun (ret u) (map VfJob (gors u)) (?p1\<lparr>gst := v, gvm := ovm u\<rparr>)"
  have 2: "main_step ops client now log ?p1 ?p2" by (rule vfkit [OF _ d(1) _ u(1)]) (use p1 d(2) in simp_all)
  obtain w x where w: "gvproxy_job no_network (gst ?p2) = Done (w, x)" "ggors w = []" using no_network_job [of "gst ?p2"] by blast
  let ?p3 = "returned GvproxyRun (gret w) (map GvJob (ggors w)) (?p2\<lparr>gst := x\<rparr>)"
  have p2: "gjobs ?p2 = {#AgentClose, BindPid, GvproxyRun, Signals#}" "cancelled ?p2" using p1 u(2) by simp_all
  have 3: "main_step ops client now log ?p2 ?p3" by (rule gvproxy [OF _ w(1)]) (simp only: p2(1), simp)
  have p3: "gjobs ?p3 = {#AgentClose, BindPid, Signals#}" "cancelled ?p3" using p2 w(2) by simp_all
  have "set_mset (gjobs ?p3) \<subseteq> ctx_waiters" unfolding p3(1) by (simp add: ctx_waiters_def closers_def)
  then show ?thesis
    using ctx_waiters_end [OF group_next [OF group_next [OF group_next [OF group_start 1] 2] 3] p3(2)] by blast
qed

definition demo_main :: main_env where
  "demo_main = \<lparr>m_flags = demo_flags\<lparr>f_logPath := ''/l'', f_eventSocketPath := ''/e.sock''\<rparr>, m_setup = demo_env, m_basic_first = True, m_order = setup_steps,
     m_proc = old_instance, m_now = ''now'', m_client = ok_client, m_agent_new = None, m_agent_add = None,
     m_agent = \<lparr>a_sock = Some ''/a'', a_home = Inr ''/h'', a_launchctl = Inr []\<rparr>, m_listen = None\<rparr>"

definition demo_main_st :: main_st where
  "demo_main_st = \<lparr>mctx = demo_setup, mmanaged = [], mlock = None, mev = None, mchan = channel_init, msigs = chan_make 1, mnotified = False, mout = []\<rparr>"

lemma demo_main_fields [simp]: "mev demo_main_st = None" "mchan demo_main_st = channel_init" "msigs demo_main_st = chan_make 1"
  by (simp_all add: demo_main_st_def chan_make_def)

text \<open>Without arguments the name is missing.\<close>

lemma no_arguments:
  "cli_Parse [] = Parsed default_flags []" "\<exists>r. ovm_program [] demo_main demo_main_st = Exited r \<and> r \<noteq> Panics"
proof -
  show p: "cli_Parse [] = Parsed default_flags []" by (simp add: cli_Parse_def flag_Parse.simps parseOne_def)
  have v: "Validate default_flags = Some (Msg ''name is required'')" by (simp add: Validate_def default_flags_def)
  have "main_ok c (say m demo_main_st)" for c m by (simp add: main_ok_init)
  then have "ovm_exit c 1 (say m demo_main_st) \<noteq> Panics" for c m using ovm_exit_ends by (metis chan_res.distinct(5))
  then show "\<exists>r. ovm_program [] demo_main demo_main_st = Exited r \<and> r \<noteq> Panics" using p v by (simp add: ovm_program_def ovm_main_def)
qed


end
