(* ===== verification/Ovm_Shutdown.thy ===== *)
theory Ovm_Shutdown
  imports Ovm_Main
begin

text \<open>
  The end of the goroutines of the program (src/cmd/ovm/main.go): from every state they can reach, all of them can return, except those that wait for
  the machine's states, for which Vm\_Lifecycle shows when they do.
\<close>

text \<open>The goroutines that end when the machine has reached a final state.\<close>

definition machine_waiters :: "main_job set" where
  "machine_waiters = {VfJob StateListener, VfJob WaitStopped}"

section \<open>What the steps keep of the options\<close>

definition finite_shares :: "'v proc \<Rightarrow> bool" where
  "finite_shares p = finite (dom (ExtendShareDir (opt_of p)))"

lemma set_host_ctx [simp]: "sctx (mctx (set_host h s)) = sctx (mctx s)"
  by (simp add: set_host_def)

lemma info_ctx [simp]: "sctx (mctx (fold (main_Info now log) ms s)) = sctx (mctx s)"
  by (induction ms arbitrary: s) (simp_all add: main_Info_def)

lemma jobs_ctx:
  "ready_job accept line s = Done (e, t) \<Longrightarrow> sctx (mctx t) = sctx (mctx s)"
  "gvproxy_job genv s = Done (u, t) \<Longrightarrow> sctx (mctx t) = sctx (mctx s)"
  "vfkit_job ops renv dirs vm s = Done (w, t) \<Longrightarrow> sctx (mctx t) = sctx (mctx s)"
  "os_signal sig s = Done t \<Longrightarrow> sctx (mctx t) = sctx (mctx s)"
  by (auto simp: ready_job_def gvproxy_job_def vfkit_job_def os_signal_def map_res_def Let_def split: option.splits chan_res.splits if_splits prod.splits)

lemma returned_gst [simp]: "gst (returned j e new p) = gst p"
  by (simp add: returned_def)

lemma set_chan_ctx [simp]: "sctx (mctx (gst (set_chan c p))) = sctx (mctx (gst p))"
  by (simp add: set_chan_def)

lemma finite_shares_step: "main_step ops client now log p q \<Longrightarrow> finite_shares p \<Longrightarrow> finite_shares q"
proof (induction rule: main_step.induct)
  case (request p flusher r resp s)
  then show ?case using serve_shares [OF request(2)] by (simp add: finite_shares_def restful_New_def set_opt_def)
qed (auto simp: finite_shares_def dest: jobs_ctx)

text \<open>Together with the invariant of the group.\<close>

interpretation sharing: safe_steps "main_step ops client now log" "\<lambda>p. group_inv client p \<and> finite_shares p" for ops client now log
  by unfold_locales (blast intro: main_step_inv finite_shares_step)

section \<open>Every goroutine can return\<close>

lemma vfkit_returns:
  assumes "VfkitRun \<in># gjobs p" and "finite_shares p"
  shows "\<exists>e q. main_step ops client now log p (returned VfkitRun e [] q) \<and> ggroup q = ggroup p \<and> gjobs q = gjobs p"
proof -
  let ?m = "ExtendShareDir (opt_of p)"
  obtain ks where k: "set ks = dom ?m" "distinct ks" using finite_distinct_list assms(2) unfolding finite_shares_def by metis
  let ?dirs = "map (\<lambda>k. (k, the (?m k))) ks"
  have d: "distinct (map fst ?dirs)" "map_of ?dirs = ?m" using k by (simp_all add: map_of_map_keys comp_def)
  obtain u t where u: "vfkit_job ops no_machine ?dirs (gvm p) (gst p) = Done (u, t)" "gors u = []"
    using no_machine_job [of ops ?dirs "gvm p" "gst p"] by blast
  show ?thesis using vfkit [OF assms(1) d u(1), of client now log] u(2) by fastforce
qed

lemma stop_job_returns: "\<exists>r. stop_job ops tick (\<lambda>_. True) vm = Some r"
proof -
  let ?l = "[(''INFO'', ''stop VM, because context done'')]"
  obtain e vm1 l1 where "requestStopVM ops tick (\<lambda>_. True) 0 False vm ?l = Some (e, vm1, l1)"
    using requestStopVM_returns [where expired = "\<lambda>_. True" and n = 0 and k = 0 and ops = ops and tick = tick and stopping = False and vm = vm and l = ?l]
    by (auto simp: stop_result_def split: option.splits)
  then show ?thesis by (cases e) (auto simp: stop_job_def stopVM_def Let_def split: prod.split option.split)
qed

lemma gor_returns:
  assumes "VfJob j \<in># gjobs p" and "cancelled p" and "VfJob j \<notin> machine_waiters \<union> ctx_waiters \<union> servers"
    and "j = PowerEvents \<Longrightarrow> VfJob PowerStop \<notin># gjobs p"
  shows "\<exists>e q. main_step ops client now log p (returned (VfJob j) e [] q) \<and> ggroup q = ggroup p \<and> gjobs q = gjobs p"
proof -
  consider "j = TimeSyncAccept" | "j = PowerEvents" | c where "j = IgnitionConn c" | "j = Vsocks" | "j = StopOnDone"
    using assms(3) by (cases j) (auto simp: machine_waiters_def ctx_waiters_def closers_def servers_def)
  then show ?thesis
  proof cases
    case 1
    then show ?thesis using sync_accepted [of p ops client now log None] assms(1) by blast
  next
    case 2
    then show ?thesis using power_end [of p ops client now log] assms(1,4) by blast
  next
    case 3
    then show ?thesis
      using ignited [of c p "Some (Msg [])" None None "Some (Msg [])" _ None False "mev (gst p)" ops client now log] assms(1)
      by (fastforce simp: ignition_goroutine_def)
  next
    case 4
    obtain vmC e rs l where "vsocks_job 1 (\<lambda>_. None) vmC = (e, rs, l)" by (metis surj_pair)
    then show ?thesis using vsocks [of p 1 "\<lambda>_. None" vmC e rs l ops client now log] assms(1,2) 4 by blast
  next
    case 5
    obtain e vm l where "stop_job ops (\<lambda>_ v. v) (\<lambda>_. True) (gvm p) = Some (e, vm, l)" using stop_job_returns by (metis surj_pair)
    then show ?thesis using stop_vm [of p ops "\<lambda>_ v. v" "\<lambda>_. True" e vm l client now log] assms(1,2) 5 by fastforce
  qed
qed

lemma job_returns:
  assumes "j \<in># gjobs p" and "cancelled p" and "finite_shares p" and "j \<notin> machine_waiters"
    and "j = VfJob PowerEvents \<Longrightarrow> VfJob PowerStop \<notin># gjobs p"
  shows "\<exists>e q. main_step ops client now log p (returned j e [] q) \<and> ggroup q = ggroup p \<and> gjobs q = gjobs p"
proof -
  consider "j \<in> ctx_waiters" | "j \<in> servers" | "j = ReadyJob" | "j = GvproxyRun" | "j = VfkitRun" | "j = GvJob SshForward"
    | i where "j = VfJob i" "VfJob i \<notin> ctx_waiters \<union> servers"
  proof (cases j)
    case (GvJob i)
    then show ?thesis using that by (cases i) (auto simp: ctx_waiters_def closers_def servers_def)
  qed (use that in \<open>auto simp: ctx_waiters_def closers_def\<close>)
  then show ?thesis
  proof cases
    case 1
    then show ?thesis by (rule ctx_waiter_returns [OF assms(1) _ assms(2)])
  next
    case 2
    then show ?thesis using server [OF assms(1)] by blast
  next
    case 3
    then show ?thesis using ready [of p "Some (Msg [])" None _ "gst p" ops client now log] assms(1) by (fastforce simp: ready_job_def)
  next
    case 4
    obtain u t where "gvproxy_job no_network (gst p) = Done (u, t)" "ggors u = []" using no_network_job by blast
    then show ?thesis using gvproxy [of p no_network u t ops client now log] assms(1) 4 by fastforce
  next
    case 5
    then show ?thesis using vfkit_returns assms(1,3) by blast
  next
    case 6
    then show ?thesis
      using forward_skipped [of p None "[]" None "log_host (gst p)" _ ops client now log] assms(1,2) by (fastforce simp: forward_goroutine_def)
  next
    case 7
    then show ?thesis using gor_returns [of i p] assms by blast
  qed
qed

section \<open>The way to the end\<close>

lemma group_one: "main_step ops client now log p q \<Longrightarrow> group_reachable ops client now log p q"
  by (rule group_next [OF group_start])

text \<open>A signal makes the context end.\<close>

lemma signal_queued:
  assumes "group_inv client p" and "gerr (ggroup p) = None"
  shows "\<exists>q. group_reachable ops client now log p q \<and> Signals \<in># gjobs q \<and> mnotified (gst q) \<and> cbuf (msigs (gst q)) \<noteq> []"
proof -
  let ?q = "p\<lparr>gst := (gst p)\<lparr>mnotified := True\<rparr>\<rparr>"
  have j: "Signals \<in># gjobs p" and c: "\<not> cclosed (msigs (gst p))" "ccap (msigs (gst p)) = 1" using assms by (auto simp: group_inv_def)
  have 1: "main_step ops client now log p ?q" by (rule signal_Notify [OF j])
  show ?thesis
  proof (cases "cbuf (msigs (gst p))")
    case Nil
    let ?t = "(gst ?q)\<lparr>msigs := (msigs (gst p))\<lparr>cbuf := [''terminated'']\<rparr>\<rparr>"
    have "main_step ops client now log ?q (?q\<lparr>gst := ?t\<rparr>)"
      by (rule signal_arrives [of _ "''terminated''"]) (simp_all add: os_signal_def chan_send_def c Nil)
    then show ?thesis using group_next [OF group_one [OF 1]] j by fastforce
  next
    case (Cons x xs)
    then show ?thesis using group_one [OF 1] j by fastforce
  qed
qed

lemma context_can_end:
  assumes "group_inv client p"
  shows "\<exists>q. group_reachable ops client now log p q \<and> cancelled q"
proof (cases "gerr (ggroup p) = None")
  case True
  obtain q where q: "group_reachable ops client now log p q" "Signals \<in># gjobs q" "mnotified (gst q)" "cbuf (msigs (gst q)) \<noteq> []"
    using signal_queued [OF assms True] by blast
  then obtain sig r where "chan_recv (msigs (gst q)) = Done (Some sig, r)" by (cases "cbuf (msigs (gst q))") (auto simp: chan_recv_def)
  from group_next [OF q(1) signal [OF q(2,3) this]] obtain e u where
    r: "group_reachable ops client now log p (returned Signals (Some e) [] u)" by blast
  have "gerr (ggroup (returned Signals (Some e) [] u)) \<noteq> None" by (simp add: returned_def gerr_group_return_None)
  then show ?thesis using r grouped.reached [OF r assms] unfolding group_inv_def by blast
next
  case False
  then show ?thesis using assms group_start unfolding group_inv_def by blast
qed

lemma winds_down:
  assumes "group_inv client p \<and> finite_shares p" and "cancelled p"
  shows "\<exists>q. group_reachable ops client now log p q \<and> set_mset (gjobs q) \<subseteq> machine_waiters"
  using assms
proof (induction "size (gjobs p)" arbitrary: p rule: less_induct)
  case less
  show ?case
  proof (cases "set_mset (gjobs p) \<subseteq> machine_waiters")
    case True
    then show ?thesis using group_start by blast
  next
    case False
    then obtain i where i: "i \<in># gjobs p" "i \<notin> machine_waiters" by blast
    define j where "j = (if VfJob PowerStop \<in># gjobs p then VfJob PowerStop else i)"
    have j: "j \<in># gjobs p" "j \<notin> machine_waiters" "j = VfJob PowerEvents \<Longrightarrow> VfJob PowerStop \<notin># gjobs p"
      using i by (auto simp: j_def machine_waiters_def)
    obtain e u where u: "main_step ops client now log p (returned j e [] u)" "ggroup u = ggroup p" "gjobs u = gjobs p"
      using job_returns [OF j(1) less(3) _ j(2,3)] less(2) by blast
    have "size (gjobs (returned j e [] u)) < size (gjobs p)" using j(1) u(3) by (simp add: size_Diff1_less)
    from less(1) [OF this sharing.keeps [OF u(1) less(2)]] obtain q where
      "group_reachable ops client now log (returned j e [] u) q" "set_mset (gjobs q) \<subseteq> machine_waiters"
      using less(3) u(2) by auto
    then show ?thesis using steps_trans [OF _ group_one [OF u(1)]] by blast
  qed
qed



text \<open>The states in which \<open>main\<close> starts its goroutines are of this kind.\<close>

lemma ovm_main_starts:
  assumes "mev s = None" and "mchan s = channel_init" and "msigs s = chan_make 1" and "ovm_main env s = Started log t"
  shows "st_live (m_client env) t \<and> mchan t = channel_init \<and> finite (dom (ExtendShareDir (sctx (mctx t))))"
  using ovm_main_ok [OF assms(1-3), of env] assms(4) by (auto simp: out_ok_def shares_ok_def)

end
