(* ===== verification/Power_Notifier.thy ===== *)
theory Power_Notifier
  imports Powermonitor
begin

text \<open>
  The goroutines of the power monitor (src/pkg/powermonitor/powermonitor.go, \<open>Setup\<close>) together with the library that reports the
  sleep of the host (src/vendor/github.com/prashantgupta24/mac-sleep-notifier/notifier). The library's thread calls \<open>WillSleep\<close> or \<open>WillWake\<close>,
  one at a time, and each call sends on the channel that \<open>Start\<close> returned; one goroutine of the library waits for \<open>Quit\<close> and then deregisters the calls; one goroutine of the
  program receives the activities; another, when the context is done, calls \<open>Quit\<close> and closes the channel.
\<close>

section \<open>The system\<close>

text \<open>The goroutine that stops the monitor, the library's goroutine behind \<open>Quit\<close>, the registration of the calls, and the loop over the activities.\<close>

datatype stop_pc = StopWaits | StopQuits | StopCloses | StopDone
datatype lib_pc = LibWaits | LibStops | LibStopped
datatype registration = NotYet | Registered | Deregistered
datatype loop_pc = LoopWaits | LoopHas activity | LoopDone

text \<open>
  \<open>will\<close> is the call that waits for its send. The channel has no buffer, so that its state is \<open>notifier_closed\<close>. \<open>reported\<close> are the
  activities reported so far, \<open>crashed\<close> that the process has panicked.
\<close>

record 'v monitor =
  power_of :: "'v power"
  mon_done :: bool
  stopper :: stop_pc
  lib :: lib_pc
  registered :: registration
  will :: "activity option"
  notifier_closed :: bool
  loop :: loop_pc
  reported :: "activity list"
  crashed :: bool

text \<open>The state after \<open>Setup\<close>: \<open>Start\<close> has made the channels and started the library's goroutines.\<close>

definition monitor_new :: "'v power \<Rightarrow> 'v monitor" where
  "monitor_new p = \<lparr>power_of = p, mon_done = False, stopper = StopWaits, lib = LibWaits, registered = NotYet, will = None, notifier_closed = False,
     loop = LoopWaits, reported = [], crashed = False\<rparr>"

text \<open>
  The steps. \<open>Quit\<close> is a send without buffer: it returns when the library's goroutine has received it, before that goroutine deregisters the calls.
  Deregistering before the registration is complete is left out, since what the system library does then is not known. The other parts of the program
  set the power-save mode, act on the machine and take the clock requests at any time.
\<close>

inductive monitor_step :: "'v vzops \<Rightarrow> 'v monitor \<Rightarrow> 'v monitor \<Rightarrow> bool" for ops where
  StartNotifier: "\<not> crashed s \<Longrightarrow> registered s = NotYet \<Longrightarrow> monitor_step ops s (s\<lparr>registered := Registered\<rparr>)"
| WillCall: "\<not> crashed s \<Longrightarrow> registered s = Registered \<Longrightarrow> will s = None \<Longrightarrow> monitor_step ops s (s\<lparr>will := Some a, reported := reported s @ [a]\<rparr>)"
| will_panics: "\<not> crashed s \<Longrightarrow> will s = Some a \<Longrightarrow> notifier_closed s \<Longrightarrow> monitor_step ops s (s\<lparr>crashed := True\<rparr>)"
| will_sends: "\<not> crashed s \<Longrightarrow> will s = Some a \<Longrightarrow> \<not> notifier_closed s \<Longrightarrow> loop s = LoopWaits \<Longrightarrow>
    monitor_step ops s (s\<lparr>will := None, loop := LoopHas a\<rparr>)"
| loop_acts: "\<not> crashed s \<Longrightarrow> loop s = LoopHas a \<Longrightarrow> on_activity ops a (power_of s) = Done p \<Longrightarrow>
    monitor_step ops s (s\<lparr>power_of := p, loop := LoopWaits\<rparr>)"
| loop_ends: "\<not> crashed s \<Longrightarrow> loop s = LoopWaits \<Longrightarrow> notifier_closed s \<Longrightarrow>
    monitor_step ops s (s\<lparr>power_of := p_log ''INFO'' ''listen power monitor event exited'' (power_of s), loop := LoopDone\<rparr>)"
| mon_cancel: "\<not> crashed s \<Longrightarrow> monitor_step ops s (s\<lparr>mon_done := True\<rparr>)"
| stop_begins: "\<not> crashed s \<Longrightarrow> mon_done s \<Longrightarrow> stopper s = StopWaits \<Longrightarrow>
    monitor_step ops s (s\<lparr>power_of := p_log ''INFO'' ''power monitor stopping'' (power_of s), stopper := StopQuits\<rparr>)"
| Quit: "\<not> crashed s \<Longrightarrow> stopper s = StopQuits \<Longrightarrow> lib s = LibWaits \<Longrightarrow> monitor_step ops s (s\<lparr>stopper := StopCloses, lib := LibStops\<rparr>)"
| StopNotifier: "\<not> crashed s \<Longrightarrow> lib s = LibStops \<Longrightarrow> registered s = Registered \<Longrightarrow>
    monitor_step ops s (s\<lparr>lib := LibStopped, registered := Deregistered\<rparr>)"
| stop_closes: "\<not> crashed s \<Longrightarrow> stopper s = StopCloses \<Longrightarrow>
    monitor_step ops s (s\<lparr>power_of := p_log ''INFO'' ''power monitor stopped'' (power_of s), stopper := StopDone, notifier_closed := True\<rparr>)"
| mode_set: "\<not> crashed s \<Longrightarrow> monitor_step ops s (s\<lparr>power_of := (power_of s)\<lparr>save := b\<rparr>\<rparr>)"
| machine_moves: "\<not> crashed s \<Longrightarrow> monitor_step ops s (s\<lparr>power_of := (power_of s)\<lparr>pvm := v\<rparr>\<rparr>)"
| clock_takes: "\<not> crashed s \<Longrightarrow> ReceiveSyncTime (pchan (power_of s)) = Done (b, c) \<Longrightarrow>
    monitor_step ops s (s\<lparr>power_of := (power_of s)\<lparr>pchan := c\<rparr>\<rparr>)"

abbreviation monitor_reachable :: "'v vzops \<Rightarrow> 'v power \<Rightarrow> 'v monitor \<Rightarrow> bool" where
  "monitor_reachable ops p \<equiv> steps (monitor_step ops) (monitor_new p)"

lemmas monitor_start = steps_start [of "monitor_step ops" "monitor_new p"] for ops p
lemmas monitor_next = steps_next [of "monitor_step ops" "monitor_new p"] for ops p

section \<open>The specification\<close>

text \<open>
  What the power monitor is meant to be: a sequential machine that handles one activity after the other, each in one step, beside the same other parts. Its
  state is that of the monitor and the list of the activities handled.
\<close>

inductive power_spec :: "'v vzops \<Rightarrow> 'v power \<times> activity list \<Rightarrow> 'v power \<times> activity list \<Rightarrow> bool" for ops where
  spec_activity: "on_activity ops a p = Done q \<Longrightarrow> power_spec ops (p, as) (q, as @ [a])"
| spec_log: "power_spec ops (p, as) (p_log level m p, as)"
| spec_mode: "power_spec ops (p, as) (p\<lparr>save := b\<rparr>, as)"
| spec_machine: "power_spec ops (p, as) (p\<lparr>pvm := v\<rparr>, as)"
| spec_clock: "ReceiveSyncTime (pchan p) = Done (b, c) \<Longrightarrow> power_spec ops (p, as) (p\<lparr>pchan := c\<rparr>, as)"

text \<open>The activities that the loop has received but not handled, and those that wait for it.\<close>

definition current :: "'v monitor \<Rightarrow> activity list" where
  "current s = (case loop s of LoopHas a \<Rightarrow> [a] | _ \<Rightarrow> [])"

definition waiting_will :: "'v monitor \<Rightarrow> activity list" where
  "waiting_will s = (case will s of Some a \<Rightarrow> [a] | None \<Rightarrow> [])"

definition monitor_rel :: "'v monitor \<Rightarrow> 'v power \<times> activity list \<Rightarrow> bool" where
  "monitor_rel s a = (fst a = power_of s \<and> reported s = snd a @ current s @ waiting_will s)"

lemmas monitor_rel_defs = monitor_rel_def current_def waiting_will_def

lemma power_spec_one: "power_spec ops x y \<Longrightarrow> steps (power_spec ops) x y"
  by (rule steps_next [of "power_spec ops" x x y]) (rule steps_start)

lemma monitor_matched:
  "monitor_step ops s t \<Longrightarrow> monitor_rel s a \<Longrightarrow> \<exists>b. steps (power_spec ops) a b \<and> monitor_rel t b"
proof (induction rule: monitor_step.induct)
  case (loop_acts s x p)
  then have "power_spec ops a (p, snd a @ [x])" using spec_activity [of ops x "power_of s" p "snd a"] by (cases a) (simp add: monitor_rel_def)
  with loop_acts show ?case by (intro exI [of _ "(p, snd a @ [x])"]) (simp add: power_spec_one monitor_rel_defs)
qed (cases a; force simp: monitor_rel_defs intro: steps_start power_spec_one power_spec.intros)+

interpretation monitoring: simulation "monitor_step ops" "power_spec ops" monitor_rel for ops
  by unfold_locales (rule monitor_matched)

section \<open>The invariant\<close>

definition monitor_inv :: "'v monitor \<Rightarrow> bool" where
  "monitor_inv s = (\<not> iclosed (syncTime (pchan (power_of s))) \<and> (stopper s \<noteq> StopWaits \<longrightarrow> mon_done s) \<and>
     (notifier_closed s \<longleftrightarrow> stopper s = StopDone) \<and> (lib s = LibWaits \<longleftrightarrow> stopper s \<in> {StopWaits, StopQuits}) \<and>
     (loop s = LoopDone \<longrightarrow> notifier_closed s) \<and> (crashed s \<longrightarrow> notifier_closed s \<and> will s \<noteq> None))"

text \<open>Handling an activity neither blocks nor panics while the clock's channel is open, and leaves it open.\<close>

lemma NotifySyncTime_open: "\<not> iclosed (syncTime c) \<Longrightarrow> \<exists>d. NotifySyncTime c = Done d \<and> \<not> iclosed (syncTime d)"
  by (simp add: NotifySyncTime_def map_res_def inf_send_def inf_after_def)

lemma on_activity_open:
  assumes "\<not> iclosed (syncTime (pchan p))"
  shows "\<exists>q. on_activity ops a p = Done q \<and> \<not> iclosed (syncTime (pchan q))"
proof -
  from NotifySyncTime_open [OF assms] obtain d where d: "NotifySyncTime (pchan p) = Done d" "\<not> iclosed (syncTime d)" by blast
  show ?thesis
    using assms d by (cases a) (simp_all add: on_activity_def on_awake_def on_sleep_def Let_def p_log_def map_res_def split: option.split prod.split)
qed

lemma monitor_inv_step: "monitor_step ops s t \<Longrightarrow> monitor_inv s \<Longrightarrow> monitor_inv t"
proof (induction rule: monitor_step.induct)
  case (loop_acts s a p)
  then have "\<not> iclosed (syncTime (pchan p))" using on_activity_open [of "power_of s" ops a] by (auto simp: monitor_inv_def)
  with loop_acts show ?case by (auto simp: monitor_inv_def)
next
  case (clock_takes s b c)
  then show ?case
    by (auto simp: monitor_inv_def ReceiveSyncTime_def map_res_def inf_recv_def inf_after_def split: list.splits if_splits)
qed (auto simp: monitor_inv_def p_log_def)

interpretation monitored: safe_steps "monitor_step ops" monitor_inv for ops
  by unfold_locales (rule monitor_inv_step)

lemma monitor_inv_new: "\<not> iclosed (syncTime (pchan p)) \<Longrightarrow> monitor_inv (monitor_new p)"
  by (simp add: monitor_inv_def monitor_new_def)

lemma loop_moves:
  assumes "monitor_inv s" and "\<not> crashed s" and "notifier_closed s \<or> loop s \<noteq> LoopWaits" and "loop s \<noteq> LoopDone"
  shows "\<exists>t. monitor_step ops s t \<and> loop t = (if loop s = LoopWaits then LoopDone else LoopWaits)"
proof (cases "loop s")
  case LoopWaits
  with loop_ends [of s ops] assms show ?thesis by fastforce
next
  case (LoopHas a)
  obtain q where "on_activity ops a (power_of s) = Done q" using assms(1) on_activity_open unfolding monitor_inv_def by blast
  with loop_acts [of s a ops q] assms(2) LoopHas show ?thesis by fastforce
qed (use assms(4) in simp)

text \<open>
  C15: The power monitor refines its specification. In every interleaving of the library, the loop, the goroutine that stops it and the other
  parts of the program, the state is one that the sequential machine reaches by handling the activities in the order in which the host reported them, except for at most one that is being
  handled and one that waits. The channel is closed only after the context is done, and the process can only panic after
  that. The loop never gets stuck: it finishes the activity it has, and ends after the channel was closed.
\<close>

theorem power_monitor_refines:
  assumes "\<not> iclosed (syncTime (pchan p))" and "monitor_reachable ops p s"
  shows "(\<exists>as. steps (power_spec ops) (p, []) (power_of s, as) \<and> reported s = as @ current s @ waiting_will s) \<and>
    (crashed s \<longrightarrow> notifier_closed s) \<and> (notifier_closed s \<longrightarrow> mon_done s) \<and>
    (\<not> crashed s \<longrightarrow> notifier_closed s \<or> loop s \<noteq> LoopWaits \<longrightarrow> loop s \<noteq> LoopDone \<longrightarrow>
       (\<exists>t. monitor_step ops s t \<and> loop t = (if loop s = LoopWaits then LoopDone else LoopWaits)))"
proof -
  have inv: "monitor_inv s" by (rule monitored.reached [OF assms(2) monitor_inv_new [OF assms(1)]])
  have "monitor_rel (monitor_new p) (p, [])" by (simp add: monitor_rel_defs monitor_new_def)
  from monitoring.simulated [OF assms(2) this] obtain as where
    "steps (power_spec ops) (p, []) (power_of s, as)" "reported s = as @ current s @ waiting_will s"
    by (auto simp: monitor_rel_def)
  moreover have "crashed s \<longrightarrow> notifier_closed s" "notifier_closed s \<longrightarrow> mon_done s" using inv by (auto simp: monitor_inv_def)
  ultimately show ?thesis using loop_moves [OF inv] by blast
qed

section \<open>The end of the monitor\<close>

text \<open>A host that goes to sleep while the monitor is stopped, in the steps before the channel is closed and after.\<close>

definition sleeping_host :: "'v power \<Rightarrow> 'v monitor" where
  "sleeping_host p = (monitor_new p)\<lparr>power_of := p_log ''INFO'' ''power monitor stopping'' p, registered := Registered, mon_done := True, stopper := StopCloses,
     lib := LibStops, will := Some Sleep, reported := [Sleep]\<rparr>"

lemma sleeping_host_reachable: "monitor_reachable ops p (sleeping_host p)"
proof -
  let ?a = "(monitor_new p)\<lparr>registered := Registered\<rparr>"
  let ?b = "?a\<lparr>mon_done := True\<rparr>"
  let ?c = "?b\<lparr>power_of := p_log ''INFO'' ''power monitor stopping'' p, stopper := StopQuits\<rparr>"
  let ?d = "?c\<lparr>stopper := StopCloses, lib := LibStops\<rparr>"
  note new = monitor_new_def
  have 1: "monitor_step ops (monitor_new p) ?a" by (rule StartNotifier) (simp_all add: new)
  have 2: "monitor_step ops ?a ?b" by (rule mon_cancel) (simp add: new)
  have 3: "monitor_step ops ?b ?c" using stop_begins [of ?b ops] by (simp add: new)
  have 4: "monitor_step ops ?c ?d" by (rule Quit) (simp_all add: new)
  have 5: "monitor_step ops ?d (sleeping_host p)" using WillCall [of ?d ops Sleep] by (simp add: new sleeping_host_def)
  show ?thesis by (rule monitor_next [OF monitor_next [OF monitor_next [OF monitor_next [OF monitor_next [OF monitor_start 1] 2] 3] 4] 5])
qed

text \<open>
  C37: Stopping the monitor can end the process by a panic. \<open>Quit\<close> returns before the library has deregistered its calls, and then the program closes the
  channel on which those calls send. An activity reported at that moment sends on a closed channel: whatever the machine does, a state is reached in which the process has panicked,
  and its clean-up does not run.
\<close>

theorem power_monitor_panics:
  "\<exists>s. monitor_reachable ops p s \<and> crashed s \<and> lib s = LibStops \<and> loop s = LoopWaits"
proof -
  let ?s = "(sleeping_host p)\<lparr>power_of := p_log ''INFO'' ''power monitor stopped'' (power_of (sleeping_host p)), stopper := StopDone, notifier_closed := True\<rparr>"
  have 1: "monitor_step ops (sleeping_host p) ?s" by (rule stop_closes) (simp_all add: sleeping_host_def monitor_new_def)
  have 2: "monitor_step ops ?s (?s\<lparr>crashed := True\<rparr>)" by (rule will_panics) (simp_all add: sleeping_host_def monitor_new_def)
  show ?thesis
    by (rule exI [where x = "?s\<lparr>crashed := True\<rparr>"])
      (use monitor_next [OF monitor_next [OF sleeping_host_reachable 1] 2] in \<open>simp add: sleeping_host_def monitor_new_def\<close>)
qed

theorem power_monitor_refines_witness:
  "(\<exists>as. steps (power_spec prompt_vz) (host_awake True, []) (power_of (sleeping_host (host_awake True)), as) \<and> [Sleep] = as @ [Sleep]) \<and>
   mon_done (sleeping_host (host_awake True))"
proof -
  have "\<not> iclosed (syncTime (pchan (host_awake True)))" by (simp add: host_awake_def channel_init_def NewChannel_def)
  from power_monitor_refines [OF this sleeping_host_reachable] show ?thesis
    by (auto simp: sleeping_host_def monitor_new_def current_def waiting_will_def)
qed

end
